theory Spec2Isabelle
  imports Main
begin

section \<open>Data model of \<open>longform.py\<close>\<close>

text \<open>
  The script turns a wide table (one row per patient) into a person-period panel.
  A date column holds \<open>datetime64[ns]\<close> values: a timestamp is the number of nanoseconds
  since 1970-01-01 00:00, so a date may carry a time of day; a difference of timestamps is
  a number of nanoseconds; \<open>NaT\<close>/\<open>NaN\<close> is \<open>None\<close>. The bounds of the 64-bit
  representation are left out. A data frame is the list of its rows in index order. The
  columns \<open>t0\<close> and \<open>maxvisit\<close> are taken to be present on every input row;
  \<open>DateOfDeath\<close> may be missing. Reading and writing CSV files and the diagnostic plots
  are left out.
\<close>

type_synonym date = int

text \<open>\<open>pd.Timedelta(n, unit='d')\<close> and \<open>pd.to_timedelta(n, unit='d')\<close>: \<open>n\<close> days.\<close>

definition Timedelta :: "int \<Rightarrow> int" where
  "Timedelta n = n * 86400000000000"

text \<open>\<open>.dt.days\<close> of a difference of timestamps: its whole days, rounded down.\<close>

definition dt_days :: "int \<Rightarrow> int" where
  "dt_days d = d div 86400000000000"

text \<open>\<open>pd.to_datetime("YYYY-MM-DD")\<close>: midnight of a calendar date (proleptic Gregorian
  calendar), its day number counted from 1970-01-01.\<close>

definition to_datetime :: "int \<Rightarrow> int \<Rightarrow> int \<Rightarrow> date" where
  "to_datetime y m d =
     (let y' = (if m \<le> 2 then y - 1 else y);
          era = y' div 400;
          yoe = y' - era * 400;
          doy = (153 * (if 2 < m then m - 3 else m + 9) + 2) div 5 + d - 1;
          doe = yoe * 365 + yoe div 4 - yoe div 100 + doy
      in Timedelta (era * 146097 + doe - 719468))"

text \<open>The global constants, lines 21-24.\<close>

definition NUM_DAYS :: int where
  "NUM_DAYS = 30"

definition MAX_DATE :: date where
  "MAX_DATE = to_datetime 2020 10 1"

definition MAX_DAYS :: int where
  "MAX_DAYS = 360 * 6"

definition num_days_censor :: int where
  "num_days_censor = 30"

text \<open>The four columns selected at line 30.\<close>

record patient =
  PatientID :: nat
  t0 :: date
  DateOfDeath :: "date option"
  maxvisit :: date

text \<open>The wide frame after lines 36-78: two derived columns.\<close>

record wide = patient +
  end_date :: date
  censor :: bool

text \<open>The frame built at lines 81-92: one row per patient and period start \<open>t\<close>.\<close>

record period = wide +
  t :: date

text \<open>The final frame: the columns added at lines 94-118.\<close>

record long = period +
  month :: nat
  EVENT :: "int option"
  CENS :: int
  censor_date :: "date option"
  censor_t :: "date option"

datatype error = TypeError | ValueError

section \<open>Library operations\<close>

text \<open>\<open>DataFrame.drop_duplicates()\<close>: the first occurrence of every row is kept, in order.\<close>

fun drop_duplicates :: "'a list \<Rightarrow> 'a list" where
  "drop_duplicates [] = []"
| "drop_duplicates (x # xs) = x # drop_duplicates (filter (\<lambda>y. y \<noteq> x) xs)"

text \<open>\<open>pd.date_range(start, end, freq)\<close> with a fixed step in days: \<open>start\<close>,
  \<open>start + step\<close>, ... as long as the date is not after \<open>end\<close>.\<close>

function date_range :: "date \<Rightarrow> date \<Rightarrow> int \<Rightarrow> date list" where
  "date_range start stop step =
     (if 0 < step \<and> start \<le> stop then start # date_range (start + step) stop step else [])"
  by pat_completeness auto
termination
  by (relation "measure (\<lambda>(start, stop, step). nat (stop - start + 1))") auto

declare date_range.simps [simp del]

text \<open>\<open>groupby(key).cumcount()\<close>: every row gets the number of earlier rows with its key.\<close>

fun cumcount_from :: "(nat \<Rightarrow> nat) \<Rightarrow> nat list \<Rightarrow> nat list" where
  "cumcount_from seen [] = []"
| "cumcount_from seen (k # ks) = seen k # cumcount_from (seen(k := seen k + 1)) ks"

definition cumcount :: "nat list \<Rightarrow> nat list" where
  "cumcount ks = cumcount_from (\<lambda>_. 0) ks"

text \<open>\<open>i[i >= 0]\<close> on a series with missing values: a missing value fails the comparison.\<close>

fun nonneg :: "int option list \<Rightarrow> int list" where
  "nonneg [] = []"
| "nonneg (None # ds) = nonneg ds"
| "nonneg (Some d # ds) = (if 0 \<le> d then d # nonneg ds else nonneg ds)"

text \<open>\<open>Series.min()\<close>: missing for the empty series.\<close>

fun series_min :: "int list \<Rightarrow> int option" where
  "series_min [] = None"
| "series_min (d # ds) = (case series_min ds of None \<Rightarrow> Some d | Some m \<Rightarrow> Some (min d m))"

section \<open>The follow-up window, lines 36-78\<close>

text \<open>Lines 36-38: the row-wise minimum of the cutoff date and \<open>t0\<close> plus \<open>360*6\<close> days.\<close>

definition admin_end_date :: "patient \<Rightarrow> date" where
  "admin_end_date p = min MAX_DATE (t0 p + Timedelta (360 * 6))"

text \<open>Lines 52-54, evaluated on the \<open>end_date\<close> column of line 38.\<close>

definition censor_flag :: "patient \<Rightarrow> bool" where
  "censor_flag p \<longleftrightarrow>
     maxvisit p < admin_end_date p - Timedelta num_days_censor \<and> DateOfDeath p = None"

text \<open>Line 78: the row-wise minimum of \<open>DateOfDeath\<close> and \<open>end_date\<close>, which skips a
  missing \<open>DateOfDeath\<close>.\<close>

definition event_end_date :: "patient \<Rightarrow> date" where
  "event_end_date p =
     (case DateOfDeath p of None \<Rightarrow> admin_end_date p | Some e \<Rightarrow> min e (admin_end_date p))"

definition derive :: "patient \<Rightarrow> wide" where
  "derive p = \<lparr>PatientID = PatientID p, t0 = t0 p, DateOfDeath = DateOfDeath p,
     maxvisit = maxvisit p, end_date = event_end_date p, censor = censor_flag p\<rparr>"

section \<open>Expansion to periods, lines 81-94\<close>

text \<open>The frame built for one row of the wide frame, lines 82-91: the columns of the
  row are repeated beside every date of the range.\<close>

definition period_row :: "wide \<Rightarrow> date \<Rightarrow> period" where
  "period_row row d =
     \<lparr>PatientID = PatientID row, t0 = t0 row, DateOfDeath = DateOfDeath row,
      maxvisit = maxvisit row, end_date = end_date row, censor = censor row, t = d\<rparr>"

definition to_long :: "wide \<Rightarrow> period list" where
  "to_long row =
     map (period_row row) (date_range (t0 row) (end_date row + Timedelta NUM_DAYS) (Timedelta NUM_DAYS))"

text \<open>Lines 81-93: the per-row frames concatenated in row order, duplicates dropped.\<close>

definition expand :: "wide list \<Rightarrow> period list" where
  "expand df = drop_duplicates (concat (map to_long df))"

section \<open>Events and censoring, lines 96-118\<close>

text \<open>Lines 99, 104 and 108, in this order, on one row.\<close>

definition EVENT_of :: "period \<Rightarrow> int option" where
  "EVENT_of r =
     (let isnaevent = (DateOfDeath r = None);
          censored = censor r;
          e0 = Some 0;
          e1 = (if \<not> isnaevent \<and> the (DateOfDeath r) \<le> t r then Some 1 else e0);
          e2 = (if isnaevent \<and> censored \<and> maxvisit r + Timedelta num_days_censor < t r then None else e1)
      in e2)"

text \<open>Lines 99 and 109.\<close>

definition CENS_of :: "period \<Rightarrow> int" where
  "CENS_of r =
     (let isnaevent = (DateOfDeath r = None);
          censored = censor r
      in if isnaevent \<and> censored \<and> maxvisit r + Timedelta num_days_censor < t r then 1 else 0)"

text \<open>Lines 112-113.\<close>

definition censor_date_of :: "period \<Rightarrow> date option" where
  "censor_date_of r = (if \<not> censor r then None else Some (maxvisit r + Timedelta num_days_censor))"

text \<open>Line 116: the whole days from the censoring date to the period start.\<close>

definition censor_days :: "period \<Rightarrow> int option" where
  "censor_days r =
     (case censor_date_of r of None \<Rightarrow> None | Some c \<Rightarrow> Some (dt_days (t r - c)))"

text \<open>Line 117: per identifier, the least non-negative number of days.\<close>

definition group_min :: "period list \<Rightarrow> nat \<Rightarrow> int option" where
  "group_min df i = series_min (nonneg (map censor_days (filter (\<lambda>r. PatientID r = i) df)))"

text \<open>Line 118.\<close>

definition censor_t_of :: "period list \<Rightarrow> period \<Rightarrow> date option" where
  "censor_t_of df r =
     (case censor_date_of r of
        None \<Rightarrow> None
      | Some c \<Rightarrow>
          (case group_min df (PatientID r) of None \<Rightarrow> None | Some m \<Rightarrow> Some (c + Timedelta m)))"

definition annotate_row :: "period list \<Rightarrow> period \<Rightarrow> nat \<Rightarrow> long" where
  "annotate_row df r m =
     \<lparr>PatientID = PatientID r, t0 = t0 r, DateOfDeath = DateOfDeath r, maxvisit = maxvisit r,
      end_date = end_date r, censor = censor r, t = t r,
      month = m, EVENT = EVENT_of r, CENS = CENS_of r,
      censor_date = censor_date_of r, censor_t = censor_t_of df r\<rparr>"

text \<open>Lines 94-118 on the whole frame.\<close>

definition events_censoring :: "period list \<Rightarrow> long list" where
  "events_censoring df =
     map (\<lambda>(r, m). annotate_row df r m) (zip df (cumcount (map PatientID df)))"

section \<open>Truncation, line 119, and the whole script\<close>

definition truncate_rows :: "long list \<Rightarrow> long list" where
  "truncate_rows df = filter (\<lambda>r. case censor_t r of None \<Rightarrow> True | Some c \<Rightarrow> t r \<le> c) df"

text \<open>The frame before truncation and the frame written at line 142.\<close>

definition expanded :: "patient list \<Rightarrow> long list" where
  "expanded infile = events_censoring (expand (map derive (drop_duplicates infile)))"

definition panel :: "patient list \<Rightarrow> long list" where
  "panel infile = truncate_rows (expanded infile)"

text \<open>The script: line 26 raises on a bad configuration (raising a string is a
  \<open>TypeError\<close>), and \<open>pd.concat\<close> raises a \<open>ValueError\<close> on an empty list of frames.\<close>

definition longform :: "patient list \<Rightarrow> error + long list" where
  "longform infile =
     (if MAX_DAYS mod NUM_DAYS \<noteq> 0 then Inl TypeError
      else if drop_duplicates infile = [] then Inl ValueError
      else Inr (panel infile))"

section \<open>Notions used in the statements\<close>

text \<open>The rows of a frame that carry a given patient identifier, in frame order.\<close>

definition rows_of :: "nat \<Rightarrow> long list \<Rightarrow> long list" where
  "rows_of i df = filter (\<lambda>r. PatientID r = i) df"

text \<open>The input row \<open>p\<close> is the only input row with its identifier (the identifier is a
  key of the input table; exact copies of the row are allowed, line 30 removes them).\<close>

definition unique_id :: "patient list \<Rightarrow> patient \<Rightarrow> bool" where
  "unique_id infile p \<longleftrightarrow>
     p \<in> set infile \<and> (\<forall>q \<in> set infile. PatientID q = PatientID p \<longrightarrow> q = p)"

section \<open>Example inputs\<close>

text \<open>The patient of the first concrete scenario: an event on 2018-03-15.\<close>

definition patient_A :: patient where
  "patient_A = \<lparr>PatientID = 1, t0 = to_datetime 2018 1 1,
     DateOfDeath = Some (to_datetime 2018 3 15), maxvisit = to_datetime 2018 3 10\<rparr>"

text \<open>No event, last seen ten days after time zero, 90 days of follow-up before the
  cutoff date: the censoring date lies strictly inside the second period.\<close>

definition patient_C :: patient where
  "patient_C = \<lparr>PatientID = 2, t0 = to_datetime 2020 7 3,
     DateOfDeath = None, maxvisit = to_datetime 2020 7 13\<rparr>"

text \<open>As before, but last seen at time zero: the censoring date is the start of the
  second period.\<close>

definition patient_D :: patient where
  "patient_D = \<lparr>PatientID = 3, t0 = to_datetime 2020 7 3,
     DateOfDeath = None, maxvisit = to_datetime 2020 7 3\<rparr>"

text \<open>Time zero one month after the cutoff date.\<close>

definition patient_E :: patient where
  "patient_E = \<lparr>PatientID = 4, t0 = to_datetime 2020 11 1,
     DateOfDeath = None, maxvisit = to_datetime 2020 11 1\<rparr>"

text \<open>An event recorded one week before time zero.\<close>

definition patient_F :: patient where
  "patient_F = \<lparr>PatientID = 5, t0 = to_datetime 2018 1 1,
     DateOfDeath = Some (to_datetime 2017 12 25), maxvisit = to_datetime 2018 1 1\<rparr>"

text \<open>Three conflicting input rows with one identifier: no event; \<open>patient_G\<close> was last
  seen ten days after time zero, \<open>patient_H\<close> at time zero, and \<open>patient_J\<close> has the
  last observation of \<open>patient_G\<close> but a time zero 30 days earlier.\<close>

definition patient_G :: patient where
  "patient_G = \<lparr>PatientID = 6, t0 = to_datetime 2020 7 3,
     DateOfDeath = None, maxvisit = to_datetime 2020 7 13\<rparr>"

definition patient_H :: patient where
  "patient_H = \<lparr>PatientID = 6, t0 = to_datetime 2020 7 3,
     DateOfDeath = None, maxvisit = to_datetime 2020 7 3\<rparr>"

definition patient_J :: patient where
  "patient_J = \<lparr>PatientID = 6, t0 = to_datetime 2020 6 3,
     DateOfDeath = None, maxvisit = to_datetime 2020 7 13\<rparr>"

text \<open>As \<open>patient_C\<close>, but last seen at noon of 2020-07-13 (12 hours are 43200000000000
  nanoseconds).\<close>

definition patient_K :: patient where
  "patient_K = \<lparr>PatientID = 8, t0 = to_datetime 2020 7 3,
     DateOfDeath = None, maxvisit = to_datetime 2020 7 13 + 43200000000000\<rparr>"

section \<open>Facts about the library operations\<close>

lemma set_drop_duplicates: "set (drop_duplicates xs) = set xs"
  by (induction xs rule: drop_duplicates.induct) auto

lemma distinct_drop_duplicates: "distinct (drop_duplicates xs)"
  by (induction xs rule: drop_duplicates.induct) (auto simp: set_drop_duplicates)

lemma drop_duplicates_distinct: "distinct xs \<Longrightarrow> drop_duplicates xs = xs"
proof (induction xs)
  case Nil
  then show ?case by simp
next
  case (Cons x xs)
  then have "filter (\<lambda>y. y \<noteq> x) xs = xs"
    by (auto intro: filter_True)
  with Cons show ?case by simp
qed

lemma filter_drop_duplicates:
  "filter P (drop_duplicates xs) = drop_duplicates (filter P xs)"
proof (induction xs rule: drop_duplicates.induct)
  case 1
  then show ?case by simp
next
  case (2 x xs)
  show ?case
  proof (cases "P x")
    case True
    have "filter (\<lambda>y. y \<noteq> x) (filter P xs) = filter P (filter (\<lambda>y. y \<noteq> x) xs)"
      by (simp add: conj_commute)
    with True 2 show ?thesis by simp
  next
    case False
    then have "filter P (filter (\<lambda>y. y \<noteq> x) xs) = filter P xs"
      by (auto intro: filter_cong)
    with False 2 show ?thesis by simp
  qed
qed

lemma date_range_closed:
  "0 < step \<Longrightarrow>
   date_range start stop step =
     map (\<lambda>k. start + int k * step) [0..<nat ((stop - start) div step + 1)]"
proof (induction start stop step rule: date_range.induct)
  case (1 start stop step)
  show ?case
  proof (cases "start \<le> stop")
    case True
    let ?n = "nat ((stop - (start + step)) div step + 1)"
    have d: "(stop - start) div step = (stop - (start + step)) div step + 1"
    proof -
      have "stop - start = (stop - (start + step)) + step" by simp
      then show ?thesis using 1(2) by (metis div_add_self2 less_irrefl)
    qed
    have nn: "0 \<le> (stop - start) div step"
      using True 1(2) by (simp add: pos_imp_zdiv_nonneg_iff)
    then have n: "nat ((stop - start) div step + 1) = Suc ?n"
      using d by simp
    have "date_range start stop step = start # date_range (start + step) stop step"
      using True 1(2) by (subst date_range.simps) simp
    also have "\<dots> = start # map (\<lambda>k. start + step + int k * step) [0..<?n]"
      using 1 True by simp
    also have "\<dots> = map (\<lambda>k. start + int k * step) [0..<Suc ?n]"
      by (simp add: upt_conv_Cons map_Suc_upt [symmetric] algebra_simps del: upt_Suc)
    finally show ?thesis using n by simp
  next
    case False
    then have "(stop - start) div step < 0"
      using 1(2) by (simp add: div_neg_pos_less0)
    with False show ?thesis
      by (subst date_range.simps) simp
  qed
qed

lemma cumcount_from_filter:
  "filter (\<lambda>(r, m). f r = i) (zip rs (cumcount_from seen (map f rs))) =
   zip (filter (\<lambda>r. f r = i) rs)
     [seen i ..< seen i + length (filter (\<lambda>r. f r = i) rs)]"
proof (induction rs arbitrary: seen)
  case Nil
  then show ?case by simp
next
  case (Cons r rs)
  show ?case
  proof (cases "f r = i")
    case True
    let ?n = "length (filter (\<lambda>r. f r = i) rs)"
    have u: "[seen i ..< seen i + Suc ?n] = seen i # [Suc (seen i) ..< Suc (seen i) + ?n]"
      by (simp add: upt_conv_Cons del: upt_Suc)
    have "filter (\<lambda>(r, m). f r = i)
            (zip rs (cumcount_from (seen(i := seen i + 1)) (map f rs))) =
          zip (filter (\<lambda>r. f r = i) rs) [Suc (seen i) ..< Suc (seen i) + ?n]"
      by (subst Cons) simp
    with True u show ?thesis
      by (simp del: upt_Suc)
  next
    case False
    have "filter (\<lambda>(r, m). f r = i)
            (zip rs (cumcount_from (seen(f r := seen (f r) + 1)) (map f rs))) =
          zip (filter (\<lambda>r. f r = i) rs) [seen i ..< seen i + length (filter (\<lambda>r. f r = i) rs)]"
      using False by (subst Cons) simp
    with False show ?thesis
      by simp
  qed
qed

lemma series_min_Min:
  "series_min ds = (if ds = [] then None else Some (Min (set ds)))"
proof (induction ds)
  case Nil
  then show ?case by simp
next
  case (Cons d ds)
  then show ?case by (cases ds) (auto simp: min_def)
qed

lemma nonneg_map:
  "nonneg (map Some ds) = filter (\<lambda>d. 0 \<le> d) ds"
  by (induction ds) auto

lemma concat_map_only:
  "distinct xs \<Longrightarrow> p \<in> set xs \<Longrightarrow> (\<And>q. q \<in> set xs \<Longrightarrow> q \<noteq> p \<Longrightarrow> g q = []) \<Longrightarrow>
   concat (map g xs) = g p"
proof (induction xs)
  case Nil
  then show ?case by simp
next
  case (Cons x xs)
  show ?case
  proof (cases "x = p")
    case True
    with Cons.prems have "\<And>q. q \<in> set xs \<Longrightarrow> g q = []" by auto
    then have "concat (map g xs) = []" by simp
    with True show ?thesis by simp
  next
    case False
    with Cons show ?thesis by auto
  qed
qed

section \<open>Patients are processed independently\<close>

lemma NUM_DAYS_pos: "0 < Timedelta NUM_DAYS"
  by (simp add: Timedelta_def NUM_DAYS_def)

lemma PatientID_annotate_row [simp]: "PatientID (annotate_row df r m) = PatientID r"
  by (simp add: annotate_row_def)

lemma group_min_filter:
  "group_min (filter (\<lambda>r. PatientID r = i) df) i = group_min df i"
  by (simp add: group_min_def)

lemma annotate_row_group:
  "annotate_row (filter (\<lambda>r'. PatientID r' = PatientID r) df) r m = annotate_row df r m"
  by (simp add: annotate_row_def censor_t_of_def group_min_filter split: option.splits)

lemma rows_of_events_censoring:
  "rows_of i (events_censoring df) = events_censoring (filter (\<lambda>r. PatientID r = i) df)"
proof -
  let ?g = "filter (\<lambda>r. PatientID r = i) df"
  have a: "\<And>r m. PatientID r = i \<Longrightarrow> annotate_row df r m = annotate_row ?g r m"
    using annotate_row_group [of _ df] by metis
  have "rows_of i (events_censoring df) =
        map (\<lambda>(r, m). annotate_row df r m)
          (filter (\<lambda>(r, m). PatientID r = i) (zip df (cumcount (map PatientID df))))"
    by (simp add: rows_of_def events_censoring_def filter_map comp_def case_prod_unfold)
  also have "\<dots> = map (\<lambda>(r, m). annotate_row df r m) (zip ?g [0 ..< length ?g])"
    by (simp add: cumcount_def cumcount_from_filter)
  also have "\<dots> = map (\<lambda>(r, m). annotate_row ?g r m) (zip ?g [0 ..< length ?g])"
    by (rule map_cong) (auto dest!: set_zip_leftD simp: a)
  also have "zip ?g [0 ..< length ?g] = zip ?g (cumcount (map PatientID ?g))"
  proof -
    have "filter (\<lambda>(r, m). PatientID r = i) (zip ?g (cumcount (map PatientID ?g))) =
          zip ?g [0 ..< length ?g]"
      by (simp add: cumcount_def cumcount_from_filter)
    moreover have "filter (\<lambda>(r, m). PatientID r = i) (zip ?g (cumcount (map PatientID ?g))) =
          zip ?g (cumcount (map PatientID ?g))"
      by (rule filter_True) (auto dest!: set_zip_leftD)
    ultimately show ?thesis by simp
  qed
  finally show ?thesis by (simp add: events_censoring_def)
qed

lemma PatientID_to_long: "r \<in> set (to_long w) \<Longrightarrow> PatientID r = PatientID w"
  by (auto simp: to_long_def period_row_def)

lemma PatientID_derive [simp]: "PatientID (derive p) = PatientID p"
  by (simp add: derive_def)

lemma derive_inject: "derive p = derive q \<Longrightarrow> p = q"
  by (cases p, cases q) (simp add: derive_def)

lemma distinct_date_range: "distinct (date_range a b (Timedelta NUM_DAYS))"
  by (simp add: date_range_closed NUM_DAYS_pos distinct_map inj_on_def Timedelta_def
      NUM_DAYS_def)

lemma distinct_to_long: "distinct (to_long w)"
  by (simp add: to_long_def period_row_def distinct_map distinct_date_range inj_on_def)

lemma filter_expand_unique:
  assumes "unique_id infile p"
  shows "filter (\<lambda>r. PatientID r = PatientID p) (expand (map derive (drop_duplicates infile))) =
         to_long (derive p)"
proof -
  let ?P = "\<lambda>r::period. PatientID r = PatientID p"
  let ?g = "\<lambda>q. filter ?P (to_long (derive q))"
  have p: "p \<in> set (drop_duplicates infile)"
    using assms by (simp add: unique_id_def set_drop_duplicates)
  have other: "\<And>q. q \<in> set (drop_duplicates infile) \<Longrightarrow> q \<noteq> p \<Longrightarrow> ?g q = []"
  proof -
    fix q assume "q \<in> set (drop_duplicates infile)" "q \<noteq> p"
    then have "PatientID q \<noteq> PatientID p"
      using assms by (auto simp: unique_id_def set_drop_duplicates)
    then show "?g q = []"
      by (auto simp: filter_empty_conv dest: PatientID_to_long)
  qed
  have own: "?g p = to_long (derive p)"
    by (rule filter_True) (auto dest: PatientID_to_long)
  have "filter ?P (concat (map to_long (map derive (drop_duplicates infile)))) =
        concat (map ?g (drop_duplicates infile))"
    by (simp add: filter_concat comp_def)
  also have "\<dots> = ?g p"
    using distinct_drop_duplicates p other by (rule concat_map_only)
  finally show ?thesis
    by (simp add: expand_def filter_drop_duplicates own drop_duplicates_distinct distinct_to_long)
qed

lemma expand_single: "expand [derive p] = to_long (derive p)"
  by (simp add: expand_def drop_duplicates_distinct distinct_to_long)

lemma rows_of_expanded:
  "unique_id infile p \<Longrightarrow> rows_of (PatientID p) (expanded infile) = expanded [p]"
  by (simp add: expanded_def rows_of_events_censoring filter_expand_unique expand_single)

lemma rows_of_truncate_rows: "rows_of i (truncate_rows df) = truncate_rows (rows_of i df)"
  by (auto simp: rows_of_def truncate_rows_def intro: filter_cong)

lemma rows_of_panel:
  "unique_id infile p \<Longrightarrow> rows_of (PatientID p) (panel infile) = panel [p]"
  by (simp add: panel_def rows_of_truncate_rows rows_of_expanded)

section \<open>Rows of the frame\<close>

lemmas script_defs =
  panel_def expanded_def derive_def expand_def to_long_def period_row_def date_range.simps
  event_end_date_def admin_end_date_def censor_flag_def MAX_DATE_def to_datetime_def
  Timedelta_def dt_days_def
  NUM_DAYS_def num_days_censor_def events_censoring_def cumcount_def annotate_row_def
  truncate_rows_def EVENT_of_def CENS_of_def censor_t_of_def censor_date_of_def
  group_min_def censor_days_def

lemma in_expanded_fields:
  assumes "r \<in> set (expanded infile)"
  shows "\<exists>p \<in> set infile. \<exists>x m.
           r = annotate_row (expand (map derive (drop_duplicates infile))) x m \<and>
           x \<in> set (to_long (derive p))"
proof -
  let ?df = "expand (map derive (drop_duplicates infile))"
  from assms obtain x m where r: "r = annotate_row ?df x m"
    and "(x, m) \<in> set (zip ?df (cumcount (map PatientID ?df)))"
    by (auto simp: expanded_def events_censoring_def)
  then have "x \<in> set ?df" by (auto dest: set_zip_leftD)
  then obtain p where "p \<in> set infile" "x \<in> set (to_long (derive p))"
    by (auto simp: expand_def set_drop_duplicates)
  with r show ?thesis by blast
qed

lemma to_long_fields:
  "x \<in> set (to_long (derive p)) \<Longrightarrow>
     PatientID x = PatientID p \<and> t0 x = t0 p \<and> DateOfDeath x = DateOfDeath p \<and>
     maxvisit x = maxvisit p \<and> end_date x = event_end_date p \<and> censor x = censor_flag p"
  by (auto simp: to_long_def period_row_def derive_def)

lemma set_panel_subset: "set (panel infile) \<subseteq> set (expanded infile)"
  by (auto simp: panel_def truncate_rows_def)

text \<open>The script raises only on an input without rows; otherwise it writes the panel.\<close>

lemma longform_panel:
  "longform infile = (if infile = [] then Inl ValueError else Inr (panel infile))"
  by (cases infile) (simp_all add: longform_def MAX_DAYS_def NUM_DAYS_def)

text \<open>Every row of the frame repeats the columns of the input row it was built from,
  and its flags are functions of its own columns.\<close>

lemma expanded_row:
  assumes "r \<in> set (expanded infile)"
  shows "\<exists>p \<in> set infile.
           PatientID r = PatientID p \<and> t0 r = t0 p \<and> DateOfDeath r = DateOfDeath p \<and>
           maxvisit r = maxvisit p \<and> end_date r = event_end_date p \<and>
           censor r = censor_flag p"
    and "CENS r = (if DateOfDeath r = None \<and> censor r \<and> maxvisit r + Timedelta num_days_censor < t r
                   then 1 else 0)"
    and "censor_date r = (if censor r then Some (maxvisit r + Timedelta num_days_censor) else None)"
proof -
  from in_expanded_fields [OF assms] obtain p x m where
    p: "p \<in> set infile" and
    r: "r = annotate_row (expand (map derive (drop_duplicates infile))) x m" and
    x: "x \<in> set (to_long (derive p))"
    by blast
  from r to_long_fields [OF x] p
  show "\<exists>p \<in> set infile.
           PatientID r = PatientID p \<and> t0 r = t0 p \<and> DateOfDeath r = DateOfDeath p \<and>
           maxvisit r = maxvisit p \<and> end_date r = event_end_date p \<and>
           censor r = censor_flag p"
    by (auto simp: annotate_row_def)
  from r show "CENS r = (if DateOfDeath r = None \<and> censor r \<and>
      maxvisit r + Timedelta num_days_censor < t r then 1 else 0)"
    by (simp add: annotate_row_def CENS_of_def)
  from r show "censor_date r = (if censor r then Some (maxvisit r + Timedelta num_days_censor) else None)"
    by (simp add: annotate_row_def censor_date_of_def)
qed

section \<open>The follow-up window\<close>

text \<open>
  Claim C4. The end of follow-up derived for a patient is the earlier of the cutoff date
  and time zero plus the maximum follow-up; when an event date is present the result is
  further reduced to the earlier of that value and the event date, and when the event
  date is missing the second step changes nothing. Every row of the final panel carries
  the value so derived from its own columns.
\<close>

theorem end_date_derivation:
  "admin_end_date p = min MAX_DATE (t0 p + Timedelta MAX_DAYS) \<and>
   end_date (derive p) =
     (case DateOfDeath p of
        None \<Rightarrow> min MAX_DATE (t0 p + Timedelta MAX_DAYS)
      | Some e \<Rightarrow> min (min MAX_DATE (t0 p + Timedelta MAX_DAYS)) e) \<and>
   (DateOfDeath p = None \<longrightarrow> end_date (derive p) = admin_end_date p) \<and>
   (\<forall>r \<in> set (panel infile).
      end_date r =
        (case DateOfDeath r of
           None \<Rightarrow> min MAX_DATE (t0 r + Timedelta MAX_DAYS)
         | Some e \<Rightarrow> min (min MAX_DATE (t0 r + Timedelta MAX_DAYS)) e))"
proof -
  have e: "event_end_date q =
        (case DateOfDeath q of
           None \<Rightarrow> min MAX_DATE (t0 q + Timedelta MAX_DAYS)
         | Some e \<Rightarrow> min (min MAX_DATE (t0 q + Timedelta MAX_DAYS)) e)" for q
    by (simp add: admin_end_date_def MAX_DAYS_def event_end_date_def min.commute
        split: option.splits)
  have "end_date r =
        (case DateOfDeath r of
           None \<Rightarrow> min MAX_DATE (t0 r + Timedelta MAX_DAYS)
         | Some e \<Rightarrow> min (min MAX_DATE (t0 r + Timedelta MAX_DAYS)) e)"
    if "r \<in> set (panel infile)" for r
  proof -
    from that have "r \<in> set (expanded infile)" using set_panel_subset by blast
    from expanded_row(1) [OF this] obtain q where
      "t0 r = t0 q" "DateOfDeath r = DateOfDeath q" "end_date r = event_end_date q"
      by blast
    then show ?thesis using e [of q] by (simp split: option.splits)
  qed
  moreover have "admin_end_date p = min MAX_DATE (t0 p + Timedelta MAX_DAYS)"
    by (simp add: admin_end_date_def MAX_DAYS_def)
  moreover have "end_date (derive p) = event_end_date p"
    by (simp add: derive_def)
  moreover have "DateOfDeath p = None \<longrightarrow> event_end_date p = admin_end_date p"
    by (simp add: event_end_date_def)
  ultimately show ?thesis using e [of p] by simp
qed

theorem end_date_derivation_witness:
  "DateOfDeath patient_C = None \<and>
   end_date (derive patient_C) = admin_end_date patient_C \<and>
   admin_end_date patient_C = to_datetime 2020 10 1 \<and>
   panel [patient_C] \<noteq> [] \<and>
   end_date (hd (panel [patient_C])) = to_datetime 2020 10 1"
proof -
  have ne: "panel [patient_C] \<noteq> []"
    by code_simp
  then have "hd (panel [patient_C]) \<in> set (panel [patient_C])"
    by simp
  with end_date_derivation [of patient_C "[patient_C]"]
  have "end_date (hd (panel [patient_C])) =
        (case DateOfDeath (hd (panel [patient_C])) of
           None \<Rightarrow> min MAX_DATE (t0 (hd (panel [patient_C])) + Timedelta MAX_DAYS)
         | Some e \<Rightarrow> min (min MAX_DATE (t0 (hd (panel [patient_C])) + Timedelta MAX_DAYS)) e)"
    and "DateOfDeath patient_C = None \<longrightarrow>
         end_date (derive patient_C) = admin_end_date patient_C"
    by blast+
  moreover have "DateOfDeath (hd (panel [patient_C])) = None"
    and "t0 (hd (panel [patient_C])) = to_datetime 2020 7 3"
    by code_simp+
  moreover have "DateOfDeath patient_C = None"
    by (simp add: patient_C_def)
  moreover have "admin_end_date patient_C = to_datetime 2020 10 1"
    by (simp add: patient_C_def admin_end_date_def MAX_DATE_def to_datetime_def Timedelta_def)
  ultimately show ?thesis using ne
    by (simp add: MAX_DATE_def MAX_DAYS_def to_datetime_def Timedelta_def)
qed

text \<open>
  Claim C5. A patient is flagged as a censoring candidate exactly when the event date is
  missing and the last observation is strictly earlier than the fully derived end of
  follow-up minus the grace period. The flag is computed from the end of follow-up before
  the event date is taken into account; both agree whenever the event date is missing.
  Every row of the final panel carries the flag so determined by its own columns.
\<close>

theorem censor_flag_iff:
  "(censor (derive p) \<longleftrightarrow>
      DateOfDeath p = None \<and> maxvisit p < end_date (derive p) - Timedelta num_days_censor) \<and>
   (\<forall>r \<in> set (panel infile).
      censor r \<longleftrightarrow> DateOfDeath r = None \<and> maxvisit r < end_date r - Timedelta num_days_censor)"
proof -
  have c: "censor_flag q \<longleftrightarrow>
      DateOfDeath q = None \<and> maxvisit q < event_end_date q - Timedelta num_days_censor" for q
    by (auto simp: censor_flag_def event_end_date_def)
  have "censor r \<longleftrightarrow> DateOfDeath r = None \<and> maxvisit r < end_date r - Timedelta num_days_censor"
    if "r \<in> set (panel infile)" for r
  proof -
    from that have "r \<in> set (expanded infile)" using set_panel_subset by blast
    from expanded_row(1) [OF this] obtain q where
      "DateOfDeath r = DateOfDeath q" "end_date r = event_end_date q"
      "maxvisit r = maxvisit q" "censor r = censor_flag q"
      by blast
    then show ?thesis using c [of q] by simp
  qed
  then show ?thesis using c [of p] by (simp add: derive_def)
qed

theorem censor_flag_iff_witness:
  "censor (derive patient_C) \<and> \<not> censor (derive patient_A) \<and>
   panel [patient_C] \<noteq> [] \<and> censor (hd (panel [patient_C])) \<and>
   maxvisit (hd (panel [patient_C])) < end_date (hd (panel [patient_C])) - Timedelta num_days_censor"
proof -
  have ne: "panel [patient_C] \<noteq> []"
    by code_simp
  then have "hd (panel [patient_C]) \<in> set (panel [patient_C])"
    by simp
  with censor_flag_iff [of patient_C "[patient_C]"]
  have "censor (hd (panel [patient_C])) \<longleftrightarrow>
        DateOfDeath (hd (panel [patient_C])) = None \<and>
        maxvisit (hd (panel [patient_C])) < end_date (hd (panel [patient_C])) - Timedelta num_days_censor"
    by blast
  moreover have "censor (hd (panel [patient_C]))"
    by code_simp
  moreover have "censor (derive patient_C)" "\<not> censor (derive patient_A)"
    by code_simp+
  ultimately show ?thesis using ne by simp
qed

text \<open>
  Claim C9, as the code has it. The derived end of follow-up is never after the cutoff
  date. It is not before time zero exactly when time zero is not after the cutoff date and
  the event date, when present, is not before time zero; the script checks neither.
\<close>

theorem end_date_bounds:
  "end_date (derive p) \<le> MAX_DATE \<and>
   (t0 p \<le> end_date (derive p) \<longleftrightarrow>
      t0 p \<le> MAX_DATE \<and> (\<forall>e. DateOfDeath p = Some e \<longrightarrow> t0 p \<le> e)) \<and>
   (\<forall>r \<in> set (panel infile). end_date r \<le> MAX_DATE)"
proof -
  have b: "event_end_date q \<le> MAX_DATE" for q
    by (auto simp: event_end_date_def admin_end_date_def min_def split: option.splits)
  have "end_date r \<le> MAX_DATE" if "r \<in> set (panel infile)" for r
  proof -
    from that have "r \<in> set (expanded infile)" using set_panel_subset by blast
    from expanded_row(1) [OF this] obtain q where "end_date r = event_end_date q"
      by blast
    then show ?thesis using b [of q] by simp
  qed
  moreover have "t0 p \<le> event_end_date p \<longleftrightarrow>
      t0 p \<le> MAX_DATE \<and> (\<forall>e. DateOfDeath p = Some e \<longrightarrow> t0 p \<le> e)"
    by (auto simp: event_end_date_def admin_end_date_def Timedelta_def split: option.splits)
  ultimately show ?thesis using b [of p] by (simp add: derive_def)
qed

theorem end_date_bounds_witness:
  "t0 patient_A \<le> MAX_DATE \<and> DateOfDeath patient_A = Some (to_datetime 2018 3 15) \<and>
   t0 patient_A \<le> to_datetime 2018 3 15 \<and> t0 patient_A \<le> end_date (derive patient_A) \<and>
   end_date (derive patient_A) \<le> MAX_DATE \<and>
   panel [patient_A] \<noteq> [] \<and> end_date (hd (panel [patient_A])) \<le> MAX_DATE"
proof -
  have ne: "panel [patient_A] \<noteq> []"
    by code_simp
  then have "hd (panel [patient_A]) \<in> set (panel [patient_A])"
    by simp
  moreover have "t0 patient_A \<le> MAX_DATE"
    and "DateOfDeath patient_A = Some (to_datetime 2018 3 15)"
    and "t0 patient_A \<le> to_datetime 2018 3 15"
    by (simp_all add: patient_A_def MAX_DATE_def to_datetime_def Timedelta_def)
  ultimately show ?thesis
    using ne end_date_bounds [of patient_A "[patient_A]"] by auto
qed

theorem end_date_before_origin_counterexample:
  "end_date (derive patient_E) < t0 patient_E \<and>
   end_date (derive patient_F) < t0 patient_F \<and>
   map t (panel [patient_F]) = [to_datetime 2018 1 1] \<and>
   map end_date (panel [patient_F]) = [to_datetime 2017 12 25] \<and>
   map t0 (panel [patient_F]) = [to_datetime 2018 1 1]"
  by code_simp

section \<open>The censoring flag of a row\<close>

text \<open>
  Claim C7. No row of the final panel with an event date has \<open>CENS = 1\<close>: the flag is 0
  on every such row. In particular all rows of a patient whose input row has an event
  date carry \<open>CENS = 0\<close>.
\<close>

theorem event_never_censored:
  "(\<forall>r \<in> set (panel infile). DateOfDeath r \<noteq> None \<longrightarrow> CENS r = 0) \<and>
   (unique_id infile p \<and> DateOfDeath p \<noteq> None \<longrightarrow>
      (\<forall>r \<in> set (rows_of (PatientID p) (panel infile)). CENS r = 0))"
proof -
  have row: "CENS r = 0" if "r \<in> set (panel df)" "DateOfDeath r \<noteq> None" for r df
  proof -
    from that have "r \<in> set (expanded df)" using set_panel_subset by blast
    from expanded_row(2) [OF this] that(2) show ?thesis by simp
  qed
  have "CENS r = 0"
    if u: "unique_id infile p" and d: "DateOfDeath p \<noteq> None"
      and r: "r \<in> set (rows_of (PatientID p) (panel infile))" for r
  proof -
    from r u have "r \<in> set (panel [p])" by (simp add: rows_of_panel)
    moreover from this have "r \<in> set (expanded [p])" using set_panel_subset by blast
    from expanded_row(1) [OF this] have "DateOfDeath r = DateOfDeath p" by simp
    ultimately show ?thesis using d row by simp
  qed
  with row show ?thesis by blast
qed

theorem event_never_censored_witness:
  "unique_id [patient_A, patient_C] patient_A \<and> DateOfDeath patient_A \<noteq> None \<and>
   rows_of (PatientID patient_A) (panel [patient_A, patient_C]) \<noteq> [] \<and>
   DateOfDeath (hd (panel [patient_A, patient_C])) \<noteq> None \<and>
   CENS (hd (panel [patient_A, patient_C])) = 0 \<and>
   CENS (last (rows_of (PatientID patient_A) (panel [patient_A, patient_C]))) = 0"
proof -
  have u: "unique_id [patient_A, patient_C] patient_A"
    by (simp add: unique_id_def patient_A_def patient_C_def)
  have d: "DateOfDeath patient_A \<noteq> None"
    by (simp add: patient_A_def)
  have ne: "rows_of (PatientID patient_A) (panel [patient_A, patient_C]) \<noteq> []"
    using u by (simp add: rows_of_panel) (simp add: patient_A_def script_defs)
  have h: "hd (panel [patient_A, patient_C]) \<in> set (panel [patient_A, patient_C])"
    "DateOfDeath (hd (panel [patient_A, patient_C])) \<noteq> None"
    by code_simp+
  from ne have l: "last (rows_of (PatientID patient_A) (panel [patient_A, patient_C]))
      \<in> set (rows_of (PatientID patient_A) (panel [patient_A, patient_C]))"
    by simp
  show ?thesis
    using u d ne h l event_never_censored [of "[patient_A, patient_C]" patient_A] by blast
qed

text \<open>
  Claim C1, as the code has it. On every row, before and after truncation, \<open>CENS\<close> is 1
  exactly when the row belongs to a censoring candidate without an event date and its
  period start is strictly after the last observation plus the grace period, and 0 on
  every other row. A row whose period starts exactly at the last observation plus the
  grace period has \<open>CENS = 0\<close>.
\<close>

theorem CENS_strictly_after:
  "(\<forall>r \<in> set (expanded infile).
      CENS r = (if DateOfDeath r = None \<and> censor r \<and> maxvisit r + Timedelta num_days_censor < t r
                then 1 else 0)) \<and>
   (\<forall>r \<in> set (panel infile).
      CENS r = (if DateOfDeath r = None \<and> censor r \<and> maxvisit r + Timedelta num_days_censor < t r
                then 1 else 0))"
  using expanded_row(2) set_panel_subset by blast

theorem CENS_strictly_after_witness:
  "panel [patient_C] ! 2 \<in> set (panel [patient_C]) \<and>
   DateOfDeath (panel [patient_C] ! 2) = None \<and> censor (panel [patient_C] ! 2) \<and>
   maxvisit (panel [patient_C] ! 2) + Timedelta num_days_censor < t (panel [patient_C] ! 2) \<and>
   CENS (panel [patient_C] ! 2) = 1"
proof -
  have "length (panel [patient_C]) = 3"
    by code_simp
  then have m: "panel [patient_C] ! 2 \<in> set (panel [patient_C])"
    by simp
  moreover have "DateOfDeath (panel [patient_C] ! 2) = None"
    and "censor (panel [patient_C] ! 2)"
    and "maxvisit (panel [patient_C] ! 2) + Timedelta num_days_censor < t (panel [patient_C] ! 2)"
    by code_simp+
  ultimately show ?thesis
    using CENS_strictly_after [of "[patient_C]"] by auto
qed

theorem CENS_at_threshold_counterexample:
  "DateOfDeath (panel [patient_D] ! 1) = None \<and> censor (panel [patient_D] ! 1) \<and>
   t (panel [patient_D] ! 1) = maxvisit (panel [patient_D] ! 1) + Timedelta num_days_censor \<and>
   CENS (panel [patient_D] ! 1) = 0 \<and> length (panel [patient_D]) = 2"
  by code_simp

section \<open>The first concrete scenario\<close>

text \<open>
  Claim C8, as the code has it. With the constants of the script (periods of 30 days,
  grace period of 30 days, cutoff date 2020-10-01, at most 2160 days of follow-up) the
  patient with time zero 2018-01-01, event on 2018-03-15 and last observation on
  2018-03-10 gets four rows, with period indices 0 to 3 and period starts 2018-01-01,
  2018-01-31, 2018-03-02 and 2018-04-01; \<open>EVENT\<close> is 0 at indices 0 to 2 and 1 at index
  3, the first period start not before the event date; \<open>CENS\<close> is 0 on every row.
\<close>

theorem scenario_patient_A:
  "NUM_DAYS = 30 \<and> num_days_censor = 30 \<and> MAX_DATE = to_datetime 2020 10 1 \<and>
   MAX_DAYS = 2160 \<and>
   longform [patient_A] = Inr (panel [patient_A]) \<and>
   map month (panel [patient_A]) = [0, 1, 2, 3] \<and>
   map t (panel [patient_A]) =
     [to_datetime 2018 1 1, to_datetime 2018 1 31, to_datetime 2018 3 2,
      to_datetime 2018 4 1] \<and>
   map EVENT (panel [patient_A]) = [Some 0, Some 0, Some 0, Some 1] \<and>
   map CENS (panel [patient_A]) = [0, 0, 0, 0]"
  by (simp add: longform_def MAX_DAYS_def) (simp add: patient_A_def script_defs)

theorem scenario_patient_A_counterexample:
  "map month (panel [patient_A]) \<noteq> [0, 1] \<and>
   EVENT (panel [patient_A] ! 1) \<noteq> Some 1 \<and>
   t (panel [patient_A] ! 1) = to_datetime 2018 1 31"
  by code_simp

section \<open>The frame of a single patient\<close>

text \<open>The frame of a single patient in closed form.\<close>

lemma cumcount_single_group:
  assumes "\<forall>r \<in> set rs. f r = i"
  shows "zip rs (cumcount (map f rs)) = zip rs [0 ..< length rs]"
proof -
  have all: "filter (\<lambda>r. f r = i) rs = rs"
    using assms by (auto intro: filter_True)
  have "filter (\<lambda>(r, m). f r = i) (zip rs (cumcount (map f rs))) = zip rs [0 ..< length rs]"
    by (simp add: cumcount_def cumcount_from_filter all)
  moreover have "filter (\<lambda>(r, m). f r = i) (zip rs (cumcount (map f rs))) =
      zip rs (cumcount (map f rs))"
    using assms by (intro filter_True) (auto dest!: set_zip_leftD)
  ultimately show ?thesis by simp
qed

lemma to_long_closed:
  "to_long (derive p) =
     map (\<lambda>k. period_row (derive p) (t0 p + int k * Timedelta NUM_DAYS))
       [0 ..< nat ((event_end_date p + Timedelta NUM_DAYS - t0 p) div Timedelta NUM_DAYS + 1)]"
  by (simp add: to_long_def date_range_closed NUM_DAYS_pos derive_def comp_def)

lemma expanded_single:
  "expanded [p] =
     map (\<lambda>k. annotate_row (to_long (derive p))
                 (period_row (derive p) (t0 p + int k * Timedelta NUM_DAYS)) k)
       [0 ..< nat ((event_end_date p + Timedelta NUM_DAYS - t0 p) div Timedelta NUM_DAYS + 1)]"
proof -
  let ?df = "to_long (derive p)"
  let ?n = "nat ((event_end_date p + Timedelta NUM_DAYS - t0 p) div Timedelta NUM_DAYS + 1)"
  let ?g = "\<lambda>k. period_row (derive p) (t0 p + int k * Timedelta NUM_DAYS)"
  have len: "length ?df = ?n"
    by (subst to_long_closed) simp
  have "\<forall>r \<in> set ?df. PatientID r = PatientID p"
    by (auto dest: PatientID_to_long)
  then have "zip ?df (cumcount (map PatientID ?df)) = zip ?df [0 ..< ?n]"
    using cumcount_single_group [of ?df PatientID "PatientID p"] len by simp
  also have "\<dots> = zip (map ?g [0 ..< ?n]) [0 ..< ?n]"
    by (subst to_long_closed) simp
  also have "\<dots> = map (\<lambda>k. (?g k, k)) [0 ..< ?n]"
    by (simp add: zip_map1 zip_same_conv_map)
  finally show ?thesis
    by (simp add: expanded_def expand_single events_censoring_def comp_def)
qed

lemma month_expanded_single:
  "map month (expanded [p]) = [0 ..< length (expanded [p])]"
  by (simp add: expanded_single annotate_row_def comp_def map_idI)

lemma t_expanded_single:
  "r \<in> set (expanded [p]) \<Longrightarrow> t r = t0 p + int (month r) * Timedelta NUM_DAYS"
  by (auto simp: expanded_single annotate_row_def period_row_def)

lemma length_expanded_single:
  "length (expanded [p]) = nat ((event_end_date p + Timedelta NUM_DAYS - t0 p) div Timedelta NUM_DAYS + 1)"
  by (simp add: expanded_single)

lemma nth_expanded_single:
  "k < length (expanded [p]) \<Longrightarrow>
     month (expanded [p] ! k) = k \<and> t (expanded [p] ! k) = t0 p + int k * Timedelta NUM_DAYS"
  by (simp add: expanded_single annotate_row_def period_row_def)

lemma sorted_t_expanded_single: "sorted_wrt (\<lambda>a b. t a < t b) (expanded [p])"
  by (simp add: expanded_single sorted_wrt_map annotate_row_def period_row_def
      Timedelta_def NUM_DAYS_def sorted_wrt_upt [THEN sorted_wrt_mono_rel [rotated]])

lemma single_fields:
  "r \<in> set (expanded [p]) \<Longrightarrow>
     PatientID r = PatientID p \<and> t0 r = t0 p \<and> DateOfDeath r = DateOfDeath p \<and>
     maxvisit r = maxvisit p \<and> end_date r = event_end_date p \<and> censor r = censor_flag p"
  using expanded_row(1) [of r "[p]"] by simp

section \<open>Expansion into periods\<close>

lemma div_step_bounds:
  fixes a s :: int
  assumes "0 < s"
  shows "(a div s) * s \<le> a" and "a < (a div s) * s + s"
proof -
  have "a = (a div s) * s + a mod s" by simp
  moreover have "0 \<le> a mod s" "a mod s < s" using assms by simp_all
  ultimately show "(a div s) * s \<le> a" and "a < (a div s) * s + s"
    by linarith+
qed

lemma div_step_shift:
  fixes a s :: int
  assumes "0 < s"
  shows "(a + s) div s = a div s + 1"
proof -
  from assms have "s \<noteq> 0" by simp
  then show ?thesis by (rule div_add_self2)
qed

text \<open>
  Claim C3. Let a patient's input row be the only one with its identifier and let the
  derived end of follow-up be no earlier than time zero. Then the patient's rows in the
  expanded frame, in frame order, have the period indices 0, 1, 2, ... without gaps, the
  row with index \<open>k\<close> starts at time zero plus \<open>k\<close> periods, the first row starts at time
  zero, and the sequence runs past the end of follow-up by exactly one period start: the
  last row starts strictly after the end of follow-up and every earlier row starts on or
  before it.
\<close>

theorem period_expansion:
  assumes "unique_id infile p" and "t0 p \<le> end_date (derive p)"
  shows "let rs = rows_of (PatientID p) (expanded infile);
             n = nat ((end_date (derive p) - t0 p) div Timedelta NUM_DAYS) + 2
         in length rs = n \<and>
            map month rs = [0 ..< n] \<and>
            map t rs = map (\<lambda>k. t0 p + int k * Timedelta NUM_DAYS) [0 ..< n] \<and>
            (\<forall>r \<in> set rs. t r = t0 r + int (month r) * Timedelta NUM_DAYS) \<and>
            t (hd rs) = t0 p \<and>
            end_date (derive p) < t (last rs) \<and>
            (\<forall>r \<in> set (butlast rs). t r \<le> end_date (derive p)) \<and>
            (\<exists>r \<in> set rs. end_date (derive p) < t r)"
proof -
  define rs where "rs = expanded [p]"
  define e where "e = end_date (derive p)"
  define s where "s = Timedelta NUM_DAYS"
  define q where "q = (e - t0 p) div s"
  define n where "n = nat q + 2"
  have s: "0 < s"
    by (simp add: s_def NUM_DAYS_pos)
  have rows: "rows_of (PatientID p) (expanded infile) = rs"
    using assms(1) by (simp add: rows_of_expanded rs_def)
  have e: "event_end_date p = e"
    by (simp add: derive_def e_def)
  have le: "t0 p \<le> e"
    using assms(2) by (simp add: e_def)
  have q0: "0 \<le> q"
    using le s by (simp add: q_def pos_imp_zdiv_nonneg_iff)
  have q1: "q * s \<le> e - t0 p" and q2: "e - t0 p < q * s + s"
    unfolding q_def by (rule div_step_bounds [OF s])+
  have "e + s - t0 p = (e - t0 p) + s"
    by simp
  then have "(e + s - t0 p) div s = q + 1"
    unfolding q_def by (simp only: div_step_shift [OF s])
  then have len: "length rs = n"
    using q0 by (simp add: rs_def length_expanded_single e n_def s_def)
  have mon: "map month rs = [0 ..< n]"
    using month_expanded_single [of p] len by (simp add: rs_def)
  have nth: "month (rs ! k) = k \<and> t (rs ! k) = t0 p + int k * s" if "k < n" for k
    using that nth_expanded_single [of k p] len by (simp add: rs_def s_def)
  have tt: "map t rs = map (\<lambda>k. t0 p + int k * s) [0 ..< n]"
    by (rule nth_equalityI) (simp_all add: len nth)
  have own: "\<forall>r \<in> set rs. t r = t0 r + int (month r) * s"
  proof
    fix r assume "r \<in> set rs"
    then have "r \<in> set (expanded [p])" by (simp add: rs_def)
    then show "t r = t0 r + int (month r) * s"
      using t_expanded_single [of r p] single_fields [of r p] by (simp add: s_def)
  qed
  have ne: "rs \<noteq> []"
    using len by (auto simp: n_def)
  have hd: "t (hd rs) = t0 p"
    using nth [of 0] ne by (simp add: hd_conv_nth n_def)
  have "t (last rs) = t0 p + int (n - 1) * s"
    using nth [of "n - 1"] ne len by (simp add: last_conv_nth n_def)
  moreover have "int (n - 1) = q + 1"
    using q0 by (simp add: n_def)
  ultimately have last: "e < t (last rs)"
    using q2 by (simp add: algebra_simps)
  have but: "\<forall>r \<in> set (butlast rs). t r \<le> e"
  proof
    fix r assume "r \<in> set (butlast rs)"
    then obtain k where k: "k < length (butlast rs)" and r: "r = butlast rs ! k"
      by (auto simp: in_set_conv_nth)
    then have kn: "k < n - 1" using len by simp
    moreover from k r have "r = rs ! k" by (simp add: nth_butlast)
    ultimately have tr: "t r = t0 p + int k * s"
      using nth [of k] by simp
    from kn q0 have "int k \<le> q" by (simp add: n_def)
    then have "int k * s \<le> q * s"
      using s by (simp add: mult_right_mono)
    with tr q1 show "t r \<le> e" by simp
  qed
  have "last rs \<in> set rs" using ne by simp
  with last have ex: "\<exists>r \<in> set rs. e < t r" by blast
  from len mon tt own hd last but ex
  show ?thesis
    unfolding Let_def rows n_def q_def e_def s_def by blast
qed

theorem period_expansion_witness:
  "unique_id [patient_A, patient_C] patient_C \<and> t0 patient_C \<le> end_date (derive patient_C) \<and>
   (let rs = rows_of (PatientID patient_C) (expanded [patient_A, patient_C]);
        n = nat ((end_date (derive patient_C) - t0 patient_C) div Timedelta NUM_DAYS) + 2
    in length rs = n \<and>
       map month rs = [0 ..< n] \<and>
       map t rs = map (\<lambda>k. t0 patient_C + int k * Timedelta NUM_DAYS) [0 ..< n] \<and>
       (\<forall>r \<in> set rs. t r = t0 r + int (month r) * Timedelta NUM_DAYS) \<and>
       t (hd rs) = t0 patient_C \<and>
       end_date (derive patient_C) < t (last rs) \<and>
       (\<forall>r \<in> set (butlast rs). t r \<le> end_date (derive patient_C)) \<and>
       (\<exists>r \<in> set rs. end_date (derive patient_C) < t r)) \<and>
   nat ((end_date (derive patient_C) - t0 patient_C) div Timedelta NUM_DAYS) + 2 = 5"
proof -
  have u: "unique_id [patient_A, patient_C] patient_C"
    by (simp add: unique_id_def patient_A_def patient_C_def)
  have le: "t0 patient_C \<le> end_date (derive patient_C)"
    and n: "nat ((end_date (derive patient_C) - t0 patient_C) div Timedelta NUM_DAYS) + 2 = 5"
    by code_simp+
  show ?thesis
    using u le n period_expansion [OF u le] by simp
qed

section \<open>Censoring date and truncation for a single patient\<close>

lemma sorted_wrt_less_distinct:
  fixes f :: "'a \<Rightarrow> int"
  shows "sorted_wrt (\<lambda>a b. f a < f b) xs \<Longrightarrow> distinct xs"
  by (induction xs) auto

lemma sorted_wrt_less_last:
  fixes f :: "'a \<Rightarrow> int"
  assumes "sorted_wrt (\<lambda>a b. f a < f b) xs" and "x \<in> set xs" and "\<forall>y \<in> set xs. f y \<le> f x"
  shows "last xs = x"
proof (rule ccontr)
  assume neq: "last xs \<noteq> x"
  from assms(2) have ne: "xs \<noteq> []" by auto
  then have split: "butlast xs @ [last xs] = xs" by simp
  have "set xs = set (butlast xs) \<union> {last xs}"
    by (subst split [symmetric]) simp
  with assms(2) neq have "x \<in> set (butlast xs)"
    by auto
  moreover have "sorted_wrt (\<lambda>a b. f a < f b) (butlast xs @ [last xs])"
    using assms(1) split by simp
  then have "\<forall>a \<in> set (butlast xs). f a < f (last xs)"
    by (simp add: sorted_wrt_append)
  ultimately have "f x < f (last xs)" by simp
  moreover have "f (last xs) \<le> f x" using assms(3) ne by simp
  ultimately show False by simp
qed

lemma length_le_one_if_all_equal:
  assumes "distinct xs" and "\<forall>y \<in> set xs. y = a"
  shows "length xs \<le> 1"
proof -
  have "set xs \<subseteq> {a}" using assms(2) by auto
  then have "card (set xs) \<le> card {a}" by (intro card_mono) auto
  with assms(1) show ?thesis by (simp add: distinct_card)
qed

lemma t_to_long_single: "map t (to_long (derive p)) = map t (expanded [p])"
  by (subst to_long_closed, subst expanded_single)
    (simp add: annotate_row_def period_row_def)

lemma dt_days_nonneg: "0 \<le> dt_days d \<longleftrightarrow> 0 \<le> d"
  by (simp add: dt_days_def pos_imp_zdiv_nonneg_iff)

lemma Timedelta_dt_days_le: "Timedelta (dt_days d) \<le> d"
  unfolding Timedelta_def dt_days_def by (rule div_step_bounds) simp

lemma Timedelta_dt_days_exact: "Timedelta 1 dvd d \<Longrightarrow> Timedelta (dt_days d) = d"
  by (simp add: Timedelta_def dt_days_def)

lemma Timedelta_dvd: "Timedelta 1 dvd Timedelta n"
  by (simp add: Timedelta_def)

lemma censor_days_to_long:
  "censor_flag p \<Longrightarrow>
   map censor_days (to_long (derive p)) =
     map Some (map (\<lambda>d. dt_days (d - (maxvisit p + Timedelta num_days_censor)))
       (map t (to_long (derive p))))"
  by (auto simp: censor_days_def censor_date_of_def dest: to_long_fields)

lemma group_min_single:
  assumes "censor_flag p"
  shows "group_min (to_long (derive p)) (PatientID p) =
         (let S = {d \<in> t ` set (expanded [p]). maxvisit p + Timedelta num_days_censor \<le> d}
          in if S = {} then None
             else Some (dt_days (Min S - (maxvisit p + Timedelta num_days_censor))))"
proof -
  let ?cd = "maxvisit p + Timedelta num_days_censor"
  let ?D = "map t (expanded [p])"
  let ?S = "{d \<in> t ` set (expanded [p]). ?cd \<le> d}"
  let ?f = "\<lambda>d. dt_days (d - ?cd)"
  let ?ds = "map ?f (filter (\<lambda>d. ?cd \<le> d) ?D)"
  have all: "filter (\<lambda>r. PatientID r = PatientID p) (to_long (derive p)) = to_long (derive p)"
    by (rule filter_True) (auto dest: PatientID_to_long)
  have "nonneg (map censor_days (to_long (derive p))) =
        filter (\<lambda>d. 0 \<le> d) (map ?f ?D)"
    using assms by (simp only: censor_days_to_long nonneg_map t_to_long_single)
  also have "\<dots> = ?ds"
    by (simp add: filter_map comp_def dt_days_nonneg)
  finally have g: "group_min (to_long (derive p)) (PatientID p) = series_min ?ds"
    by (simp add: group_min_def all)
  have S: "set (filter (\<lambda>d. ?cd \<le> d) ?D) = ?S"
    by auto
  show ?thesis
  proof (cases "?S = {}")
    case True
    with S have "filter (\<lambda>d. ?cd \<le> d) ?D = []" by simp
    then have "?ds = []" by simp
    with True g show ?thesis by (simp add: Let_def)
  next
    case False
    have fin: "finite ?S" by simp
    have "mono ?f" by (simp add: mono_def dt_days_def zdiv_mono1)
    from mono_Min_commute [OF this fin False]
    have "Min (?f ` ?S) = ?f (Min ?S)" by simp
    moreover have "set ?ds = ?f ` ?S"
      using S by simp
    moreover have "?ds \<noteq> []"
    proof
      assume "?ds = []"
      then have "set (filter (\<lambda>d. ?cd \<le> d) ?D) = {}" by simp
      with S False show False by simp
    qed
    ultimately have "series_min ?ds = Some (?f (Min ?S))"
      by (simp only: series_min_Min if_False)
    with False g show ?thesis by (simp add: Let_def)
  qed
qed

lemma censor_t_single:
  assumes "r \<in> set (expanded [p])"
  shows "censor_t r =
         (let cd = maxvisit p + Timedelta num_days_censor;
              S = {d \<in> t ` set (expanded [p]). cd \<le> d}
          in if censor_flag p \<and> S \<noteq> {} then Some (cd + Timedelta (dt_days (Min S - cd)))
             else None)"
proof -
  from in_expanded_fields [OF assms] obtain x m where
    r: "r = annotate_row (expand (map derive (drop_duplicates [p]))) x m" and
    x: "x \<in> set (to_long (derive p))"
    by auto
  from r have ct: "censor_t r = censor_t_of (to_long (derive p)) x"
    by (simp add: annotate_row_def expand_single)
  from to_long_fields [OF x] have f: "PatientID x = PatientID p" "censor x = censor_flag p"
    "maxvisit x = maxvisit p" by simp_all
  show ?thesis
  proof (cases "censor_flag p")
    case True
    with f have "censor_date_of x = Some (maxvisit p + Timedelta num_days_censor)"
      by (simp add: censor_date_of_def)
    with ct f True show ?thesis
      by (simp add: censor_t_of_def group_min_single Let_def)
  next
    case False
    with f have "censor_date_of x = None"
      by (simp add: censor_date_of_def)
    with ct False show ?thesis
      by (simp add: censor_t_of_def Let_def)
  qed
qed

lemma last_expanded_single:
  assumes "expanded [p] \<noteq> []"
  shows "event_end_date p < t (last (expanded [p]))"
proof -
  define s where "s = Timedelta NUM_DAYS"
  define a where "a = event_end_date p + s - t0 p"
  define n where "n = length (expanded [p])"
  have s: "0 < s"
    by (simp add: s_def NUM_DAYS_pos)
  have n: "n = nat (a div s + 1)"
    by (simp add: n_def a_def s_def length_expanded_single)
  from assms have pos: "0 < n" by (simp add: n_def)
  with n have q0: "0 \<le> a div s" by simp
  then have "int (n - 1) = a div s" using n by simp
  moreover have "t (last (expanded [p])) = t0 p + int (n - 1) * s"
    using assms nth_expanded_single [of "n - 1" p] pos
    by (simp add: last_conv_nth n_def s_def)
  moreover have "a < (a div s) * s + s"
    by (rule div_step_bounds [OF s])
  ultimately show ?thesis by (simp add: a_def)
qed

lemma candidate_end_date:
  "censor_flag p \<Longrightarrow> maxvisit p + Timedelta num_days_censor < event_end_date p"
  by (simp add: censor_flag_def event_end_date_def)

lemma expanded_row_EVENT:
  assumes "r \<in> set (expanded infile)"
  shows "EVENT r =
     (if DateOfDeath r = None \<and> censor r \<and> maxvisit r + Timedelta num_days_censor < t r then None
      else if DateOfDeath r \<noteq> None \<and> the (DateOfDeath r) \<le> t r then Some 1 else Some 0)"
proof -
  from in_expanded_fields [OF assms] obtain x m where
    "r = annotate_row (expand (map derive (drop_duplicates infile))) x m"
    by blast
  then show ?thesis
    by (simp add: annotate_row_def EVENT_of_def Let_def)
qed

lemma panel_single_filter:
  "panel [p] =
     filter (\<lambda>r. case censor_t r of None \<Rightarrow> True | Some c \<Rightarrow> t r \<le> c) (expanded [p])"
  by (simp add: panel_def truncate_rows_def)

lemma sorted_t_panel_single: "sorted_wrt (\<lambda>a b. t a < t b) (panel [p])"
  unfolding panel_single_filter by (rule sorted_wrt_filter) (rule sorted_t_expanded_single)

lemma single_candidate:
  assumes c: "censor_flag p" and ne: "expanded [p] \<noteq> []"
  defines "cd \<equiv> maxvisit p + Timedelta num_days_censor"
  defines "c \<equiv> Min {d \<in> t ` set (expanded [p]). cd \<le> d}"
  defines "ct \<equiv> cd + Timedelta (dt_days (c - cd))"
  shows "c \<in> t ` set (expanded [p])" and "cd \<le> c"
    and "\<forall>r \<in> set (expanded [p]). cd \<le> t r \<longrightarrow> c \<le> t r"
    and "\<forall>r \<in> set (expanded [p]). censor_t r = Some ct"
    and "panel [p] = filter (\<lambda>r. t r \<le> ct) (expanded [p])"
    and "cd \<le> ct" and "ct \<le> c"
    and "Timedelta 1 dvd (maxvisit p - t0 p) \<Longrightarrow> ct = c"
proof -
  let ?S = "{d \<in> t ` set (expanded [p]). cd \<le> d}"
  have fin: "finite ?S" by simp
  have "last (expanded [p]) \<in> set (expanded [p])" using ne by simp
  moreover have "cd < t (last (expanded [p]))"
    using candidate_end_date [OF c] last_expanded_single [OF ne] by (simp add: cd_def)
  ultimately have S: "?S \<noteq> {}" by force
  from Min_in [OF fin S] show in_rows: "c \<in> t ` set (expanded [p])" and le: "cd \<le> c"
    by (simp_all add: c_def)
  show least: "\<forall>r \<in> set (expanded [p]). cd \<le> t r \<longrightarrow> c \<le> t r"
    unfolding c_def using fin by (auto intro: Min_le)
  show ct: "\<forall>r \<in> set (expanded [p]). censor_t r = Some ct"
    using c S by (simp add: censor_t_single Let_def ct_def c_def cd_def)
  show "panel [p] = filter (\<lambda>r. t r \<le> ct) (expanded [p])"
    unfolding panel_single_filter using ct by (intro filter_cong) auto
  from le have "0 \<le> dt_days (c - cd)"
    by (simp add: dt_days_nonneg)
  then show "cd \<le> ct"
    by (simp add: ct_def Timedelta_def)
  show "ct \<le> c"
    using Timedelta_dt_days_le [of "c - cd"] by (simp add: ct_def)
  show "ct = c" if aligned: "Timedelta 1 dvd (maxvisit p - t0 p)"
  proof -
    from in_rows obtain r where "r \<in> set (expanded [p])" and "c = t r"
      by auto
    then have "c = t0 p + int (month r) * Timedelta NUM_DAYS"
      by (simp add: t_expanded_single)
    then have "c - cd =
        int (month r) * Timedelta NUM_DAYS - Timedelta num_days_censor - (maxvisit p - t0 p)"
      by (simp add: cd_def)
    moreover have "Timedelta 1 dvd int (month r) * Timedelta NUM_DAYS"
      using Timedelta_dvd by (rule dvd_mult)
    ultimately have "Timedelta 1 dvd c - cd"
      using aligned Timedelta_dvd [of num_days_censor] by (simp add: dvd_diff)
    then show ?thesis
      by (simp add: ct_def Timedelta_dt_days_exact)
  qed
qed

lemma single_noncandidate:
  assumes "\<not> censor_flag p"
  shows "\<forall>r \<in> set (expanded [p]). censor_t r = None" and "panel [p] = expanded [p]"
proof -
  show ct: "\<forall>r \<in> set (expanded [p]). censor_t r = None"
    using assms by (simp add: censor_t_single Let_def)
  show "panel [p] = expanded [p]"
    unfolding panel_single_filter using ct by (intro filter_True) auto
qed

lemma single_censor_date:
  "r \<in> set (expanded [p]) \<Longrightarrow>
     censor_date r = (if censor_flag p then Some (maxvisit p + Timedelta num_days_censor) else None)"
  using expanded_row(3) [of r "[p]"] single_fields [of r p] by simp

section \<open>Truncation\<close>

lemma in_expanded_frame:
  assumes "r \<in> set (expanded infile)"
  shows "\<exists>x m. r = annotate_row (expand (map derive (drop_duplicates infile))) x m \<and>
           x \<in> set (expand (map derive (drop_duplicates infile)))"
  using assms by (auto simp: expanded_def events_censoring_def dest: set_zip_leftD)

lemma in_panel_iff:
  "r \<in> set (panel infile) \<longleftrightarrow>
     r \<in> set (expanded infile) \<and> (case censor_t r of None \<Rightarrow> True | Some c \<Rightarrow> t r \<le> c)"
  by (simp add: panel_def truncate_rows_def)

text \<open>A row without the candidate flag has no censoring date and is never dropped,
  whatever else the input holds.\<close>

lemma noncandidate_row_kept:
  assumes "r \<in> set (expanded infile)" and "\<not> censor r"
  shows "censor_date r = None" and "censor_t r = None" and "r \<in> set (panel infile)"
proof -
  from in_expanded_frame [OF assms(1)] obtain x m where
    "r = annotate_row (expand (map derive (drop_duplicates infile))) x m" by blast
  with assms(2) show "censor_date r = None" and ct: "censor_t r = None"
    by (simp_all add: annotate_row_def censor_date_of_def censor_t_of_def)
  with assms(1) show "r \<in> set (panel infile)"
    by (simp add: in_panel_iff)
qed

lemma truncation_unique_id:
  assumes "unique_id infile p"
  shows "let ex = rows_of (PatientID p) (expanded infile);
             fin = rows_of (PatientID p) (panel infile);
             cd = maxvisit p + Timedelta num_days_censor
         in (\<forall>r \<in> set ex. censor_date r = (if censor_flag p then Some cd else None)) \<and>
            (censor_flag p \<and> ex \<noteq> [] \<and> Timedelta 1 dvd (maxvisit p - t0 p) \<longrightarrow>
               (\<exists>c. c \<in> t ` set ex \<and> cd \<le> c \<and>
                    (\<forall>r \<in> set ex. cd \<le> t r \<longrightarrow> c \<le> t r) \<and>
                    (\<forall>r \<in> set ex. censor_t r = Some c) \<and>
                    fin = filter (\<lambda>r. t r \<le> c) ex \<and>
                    (\<forall>r \<in> set ex. c < t r \<longrightarrow> r \<notin> set fin))) \<and>
            (censor_flag p \<and> ex \<noteq> [] \<longrightarrow>
               (\<exists>c. c \<in> t ` set ex \<and> cd \<le> c \<and>
                    (\<forall>r \<in> set ex. cd \<le> t r \<longrightarrow> c \<le> t r) \<and>
                    (\<forall>r \<in> set ex. censor_t r = Some (cd + Timedelta (dt_days (c - cd)))) \<and>
                    fin = filter (\<lambda>r. t r \<le> cd + Timedelta (dt_days (c - cd))) ex)) \<and>
            (\<not> censor_flag p \<longrightarrow> (\<forall>r \<in> set ex. censor_t r = None) \<and> fin = ex)"
proof -
  let ?cd = "maxvisit p + Timedelta num_days_censor"
  have ex: "rows_of (PatientID p) (expanded infile) = expanded [p]"
    and fin: "rows_of (PatientID p) (panel infile) = panel [p]"
    using assms by (simp_all add: rows_of_expanded rows_of_panel)
  have a: "\<forall>r \<in> set (expanded [p]).
      censor_date r = (if censor_flag p then Some ?cd else None)"
    using single_censor_date by blast
  have g: "\<exists>c. c \<in> t ` set (expanded [p]) \<and> ?cd \<le> c \<and>
        (\<forall>r \<in> set (expanded [p]). ?cd \<le> t r \<longrightarrow> c \<le> t r) \<and>
        (\<forall>r \<in> set (expanded [p]). censor_t r = Some (?cd + Timedelta (dt_days (c - ?cd)))) \<and>
        panel [p] = filter (\<lambda>r. t r \<le> ?cd + Timedelta (dt_days (c - ?cd))) (expanded [p])"
    if "censor_flag p" "expanded [p] \<noteq> []"
    using single_candidate(1-5) [OF that] by blast
  have b: "\<exists>c. c \<in> t ` set (expanded [p]) \<and> ?cd \<le> c \<and>
        (\<forall>r \<in> set (expanded [p]). ?cd \<le> t r \<longrightarrow> c \<le> t r) \<and>
        (\<forall>r \<in> set (expanded [p]). censor_t r = Some c) \<and>
        panel [p] = filter (\<lambda>r. t r \<le> c) (expanded [p]) \<and>
        (\<forall>r \<in> set (expanded [p]). c < t r \<longrightarrow> r \<notin> set (panel [p]))"
    if "censor_flag p" "expanded [p] \<noteq> []" "Timedelta 1 dvd (maxvisit p - t0 p)"
  proof -
    let ?c = "Min {d \<in> t ` set (expanded [p]). ?cd \<le> d}"
    note s = single_candidate [OF that(1,2)]
    have eq: "?cd + Timedelta (dt_days (?c - ?cd)) = ?c"
      using s(8) [OF that(3)] .
    have ct: "\<forall>r \<in> set (expanded [p]). censor_t r = Some ?c"
      using s(4) unfolding eq .
    have pf: "panel [p] = filter (\<lambda>r. t r \<le> ?c) (expanded [p])"
      using s(5) unfolding eq .
    have "\<forall>r \<in> set (expanded [p]). ?c < t r \<longrightarrow> r \<notin> set (panel [p])"
      by (subst pf) auto
    with s(1-3) ct pf show ?thesis by blast
  qed
  have c: "(\<forall>r \<in> set (expanded [p]). censor_t r = None) \<and> panel [p] = expanded [p]"
    if "\<not> censor_flag p"
    using single_noncandidate [OF that] by blast
  from a b g c show ?thesis
    unfolding Let_def ex fin by blast
qed

text \<open>
  Claim C2, as the code has it. Whatever else the input holds, a row without the candidate
  flag has a missing censoring date and a missing \<open>censor_t\<close> and is retained in the
  final panel. Let now a patient's input row be the only one with its identifier. If the
  patient is a censoring candidate, all the patient's rows carry the censoring date (last
  observation plus grace period), and when the patient has rows at all, one of them
  starts on or after the censoring date. If moreover time zero and the last observation
  have the same time of day (as they do when both are plain dates), \<open>censor_t\<close> is on
  every row the earliest such period start, and the final panel keeps exactly the
  patient's rows that start no later than \<open>censor_t\<close>, in order: every later row is
  dropped. In general \<open>censor_t\<close> is the censoring date plus the whole days from it to
  that period start, and the rows starting no later than this are kept. If the patient is
  not a candidate, the censoring date and \<open>censor_t\<close> are missing on all rows and the
  final panel keeps all expanded rows of the patient unchanged.
\<close>

theorem truncation_at_censor_t:
  "(\<forall>r \<in> set (expanded infile).
      \<not> censor r \<longrightarrow>
        censor_date r = None \<and> censor_t r = None \<and> r \<in> set (panel infile)) \<and>
   (unique_id infile p \<longrightarrow>
     (let ex = rows_of (PatientID p) (expanded infile);
          fin = rows_of (PatientID p) (panel infile);
          cd = maxvisit p + Timedelta num_days_censor
      in (\<forall>r \<in> set ex. censor_date r = (if censor_flag p then Some cd else None)) \<and>
         (censor_flag p \<and> ex \<noteq> [] \<and> Timedelta 1 dvd (maxvisit p - t0 p) \<longrightarrow>
            (\<exists>c. c \<in> t ` set ex \<and> cd \<le> c \<and>
                 (\<forall>r \<in> set ex. cd \<le> t r \<longrightarrow> c \<le> t r) \<and>
                 (\<forall>r \<in> set ex. censor_t r = Some c) \<and>
                 fin = filter (\<lambda>r. t r \<le> c) ex \<and>
                 (\<forall>r \<in> set ex. c < t r \<longrightarrow> r \<notin> set fin))) \<and>
         (censor_flag p \<and> ex \<noteq> [] \<longrightarrow>
            (\<exists>c. c \<in> t ` set ex \<and> cd \<le> c \<and>
                 (\<forall>r \<in> set ex. cd \<le> t r \<longrightarrow> c \<le> t r) \<and>
                 (\<forall>r \<in> set ex. censor_t r = Some (cd + Timedelta (dt_days (c - cd)))) \<and>
                 fin = filter (\<lambda>r. t r \<le> cd + Timedelta (dt_days (c - cd))) ex)) \<and>
         (\<not> censor_flag p \<longrightarrow> (\<forall>r \<in> set ex. censor_t r = None) \<and> fin = ex)))"
proof -
  have a: "censor_date r = None \<and> censor_t r = None \<and> r \<in> set (panel infile)"
    if "r \<in> set (expanded infile)" "\<not> censor r" for r
    using noncandidate_row_kept [OF that] by blast
  from a truncation_unique_id [of infile p] show ?thesis
    by blast
qed

theorem truncation_at_censor_t_witness:
  "hd (expanded [patient_A, patient_C]) \<in> set (expanded [patient_A, patient_C]) \<and>
   \<not> censor (hd (expanded [patient_A, patient_C])) \<and>
   hd (expanded [patient_A, patient_C]) \<in> set (panel [patient_A, patient_C]) \<and>
   unique_id [patient_A, patient_C] patient_C \<and> censor_flag patient_C \<and>
   rows_of (PatientID patient_C) (expanded [patient_A, patient_C]) \<noteq> [] \<and>
   Timedelta 1 dvd (maxvisit patient_C - t0 patient_C) \<and>
   unique_id [patient_A, patient_C] patient_A \<and> \<not> censor_flag patient_A \<and>
   (\<exists>c. c \<in> t ` set (rows_of (PatientID patient_C) (expanded [patient_A, patient_C])) \<and>
        maxvisit patient_C + Timedelta num_days_censor \<le> c \<and>
        (\<forall>r \<in> set (rows_of (PatientID patient_C) (expanded [patient_A, patient_C])).
           censor_t r = Some c) \<and>
        rows_of (PatientID patient_C) (panel [patient_A, patient_C]) =
          filter (\<lambda>r. t r \<le> c)
            (rows_of (PatientID patient_C) (expanded [patient_A, patient_C]))) \<and>
   rows_of (PatientID patient_A) (panel [patient_A, patient_C]) =
     rows_of (PatientID patient_A) (expanded [patient_A, patient_C])"
proof -
  have uC: "unique_id [patient_A, patient_C] patient_C"
    and uA: "unique_id [patient_A, patient_C] patient_A"
    by (simp_all add: unique_id_def patient_A_def patient_C_def)
  have cC: "censor_flag patient_C" and cA: "\<not> censor_flag patient_A"
    by code_simp+
  have "maxvisit patient_C - t0 patient_C = Timedelta 10"
    by (simp add: patient_C_def to_datetime_def Timedelta_def)
  then have al: "Timedelta 1 dvd (maxvisit patient_C - t0 patient_C)"
    by (simp add: Timedelta_dvd)
  have "length (expanded [patient_C]) = 5"
    by code_simp
  then have "expanded [patient_C] \<noteq> []"
    by auto
  then have ne: "rows_of (PatientID patient_C) (expanded [patient_A, patient_C]) \<noteq> []"
    using uC by (simp add: rows_of_expanded)
  then have "expanded [patient_A, patient_C] \<noteq> []"
    by (auto simp: rows_of_def)
  then have h: "hd (expanded [patient_A, patient_C]) \<in> set (expanded [patient_A, patient_C])"
    by simp
  have nc: "\<not> censor (hd (expanded [patient_A, patient_C]))"
    by code_simp
  from truncation_at_censor_t [of "[patient_A, patient_C]" patient_C] h nc
  have kept: "hd (expanded [patient_A, patient_C]) \<in> set (panel [patient_A, patient_C])"
    by blast
  note C = truncation_at_censor_t [of "[patient_A, patient_C]" patient_C,
      THEN conjunct2, THEN mp, OF uC]
  note A = truncation_at_censor_t [of "[patient_A, patient_C]" patient_A,
      THEN conjunct2, THEN mp, OF uA]
  from C cC ne al A cA h nc kept uC uA
  show ?thesis
    unfolding Let_def by blast
qed

text \<open>Without the key, the rows of \<open>patient_G\<close> get \<open>censor_t\<close> 2020-08-12, which is no
  period start, and lose the row of 2020-09-01, their earliest period start on or after
  their censoring date: line 117 takes the least number of days over all rows with the
  identifier, here 0 days from the rows of \<open>patient_H\<close>. With a last observation at noon,
  \<open>patient_K\<close> has the censoring date 2020-08-12 12:00; the earliest period start on or
  after it is 2020-09-01 00:00, 19 whole days later, so \<open>censor_t\<close> is 2020-08-31 12:00,
  no period start either, and the row of 2020-09-01 is dropped.\<close>

theorem truncation_at_censor_t_counterexample:
  "map maxvisit (panel [patient_G, patient_H]) =
     [to_datetime 2020 7 13, to_datetime 2020 7 13, to_datetime 2020 7 3, to_datetime 2020 7 3] \<and>
   map censor_date (panel [patient_G, patient_H]) =
     [Some (to_datetime 2020 8 12), Some (to_datetime 2020 8 12),
      Some (to_datetime 2020 8 2), Some (to_datetime 2020 8 2)] \<and>
   map censor_t (panel [patient_G, patient_H]) =
     [Some (to_datetime 2020 8 12), Some (to_datetime 2020 8 12),
      Some (to_datetime 2020 8 2), Some (to_datetime 2020 8 2)] \<and>
   map t (panel [patient_G, patient_H]) =
     [to_datetime 2020 7 3, to_datetime 2020 8 2, to_datetime 2020 7 3, to_datetime 2020 8 2] \<and>
   map t (expanded [patient_G, patient_H]) =
     [to_datetime 2020 7 3, to_datetime 2020 8 2, to_datetime 2020 9 1, to_datetime 2020 10 1,
      to_datetime 2020 10 31,
      to_datetime 2020 7 3, to_datetime 2020 8 2, to_datetime 2020 9 1, to_datetime 2020 10 1,
      to_datetime 2020 10 31] \<and>
   map censor_date (panel [patient_K]) =
     [Some (to_datetime 2020 8 12 + 43200000000000),
      Some (to_datetime 2020 8 12 + 43200000000000)] \<and>
   map censor_t (panel [patient_K]) =
     [Some (to_datetime 2020 8 31 + 43200000000000),
      Some (to_datetime 2020 8 31 + 43200000000000)] \<and>
   map t (panel [patient_K]) = [to_datetime 2020 7 3, to_datetime 2020 8 2] \<and>
   map t (expanded [patient_K]) =
     [to_datetime 2020 7 3, to_datetime 2020 8 2, to_datetime 2020 9 1, to_datetime 2020 10 1,
      to_datetime 2020 10 31]"
  by code_simp

section \<open>Rows flagged as censored\<close>

lemma month_le_if_t_le:
  assumes "r \<in> set (expanded [p])" and "r' \<in> set (expanded [p])" and "t r' \<le> t r"
  shows "month r' \<le> month r"
proof -
  from assms have "int (month r') * Timedelta NUM_DAYS \<le> int (month r) * Timedelta NUM_DAYS"
    by (simp add: t_expanded_single)
  then show ?thesis by (simp add: Timedelta_def NUM_DAYS_def)
qed

lemma CENS_row_is_last:
  assumes r: "r \<in> set (panel [p])" and c: "CENS r = 1"
  shows "t r = Min {d \<in> t ` set (expanded [p]). maxvisit p + Timedelta num_days_censor \<le> d}"
    and "\<forall>r' \<in> set (panel [p]). t r' \<le> t r"
    and "last (panel [p]) = r"
proof -
  let ?cd = "maxvisit p + Timedelta num_days_censor"
  let ?c = "Min {d \<in> t ` set (expanded [p]). ?cd \<le> d}"
  let ?ct = "?cd + Timedelta (dt_days (?c - ?cd))"
  from r have ex: "r \<in> set (expanded [p])"
    using set_panel_subset by blast
  then have ne: "expanded [p] \<noteq> []" by auto
  from expanded_row(2) [OF ex] c single_fields [OF ex]
  have cand: "censor_flag p" and after: "?cd < t r"
    by (simp_all split: if_splits)
  note s = single_candidate [OF cand ne]
  from r s(5) have kept: "t r \<le> ?ct" by simp
  moreover from s(3) ex after have least: "?c \<le> t r" by simp
  ultimately show eq: "t r = ?c" using s(7) by simp
  from kept least s(7) have "?ct = t r" by simp
  then show le: "\<forall>r' \<in> set (panel [p]). t r' \<le> t r"
    by (subst s(5)) simp
  from sorted_t_panel_single r le show "last (panel [p]) = r"
    by (rule sorted_wrt_less_last)
qed

text \<open>
  Claim C6, as the code has it. Let a patient's input row be the only one with its
  identifier (the script groups rows by identifier and does not check the key). In the final
  panel a row of that patient with \<open>CENS = 1\<close> is the patient's last row and no row of the
  patient has a later period index; hence at most one row of the patient has \<open>CENS = 1\<close>,
  and every row that is followed by another row of the patient has \<open>CENS = 0\<close>.
\<close>

theorem censored_row_is_terminal:
  assumes "unique_id infile p"
  shows "let fin = rows_of (PatientID p) (panel infile)
         in (\<forall>r \<in> set fin. CENS r = 1 \<longrightarrow>
               r = last fin \<and> (\<forall>r' \<in> set fin. month r' \<le> month r)) \<and>
            length (filter (\<lambda>r. CENS r = 1) fin) \<le> 1 \<and>
            (\<forall>r \<in> set (butlast fin). CENS r = 0)"
proof -
  have fin: "rows_of (PatientID p) (panel infile) = panel [p]"
    using assms by (simp add: rows_of_panel)
  have a: "r = last (panel [p]) \<and> (\<forall>r' \<in> set (panel [p]). month r' \<le> month r)"
    if "r \<in> set (panel [p])" "CENS r = 1" for r
  proof -
    from that(1) have ex: "r \<in> set (expanded [p])" using set_panel_subset by blast
    have "month r' \<le> month r" if "r' \<in> set (panel [p])" for r'
    proof -
      from that have "r' \<in> set (expanded [p])" using set_panel_subset by blast
      moreover have "t r' \<le> t r"
        using CENS_row_is_last(2) [OF \<open>r \<in> set (panel [p])\<close> \<open>CENS r = 1\<close>] that by simp
      ultimately show ?thesis using ex by (intro month_le_if_t_le [of r p r']) auto
    qed
    with CENS_row_is_last(3) [OF that] show ?thesis by simp
  qed
  have d: "distinct (panel [p])"
    using sorted_t_panel_single by (rule sorted_wrt_less_distinct)
  have b: "length (filter (\<lambda>r. CENS r = 1) (panel [p])) \<le> 1"
  proof (rule length_le_one_if_all_equal)
    show "distinct (filter (\<lambda>r. CENS r = 1) (panel [p]))"
      using d by simp
    show "\<forall>y \<in> set (filter (\<lambda>r. CENS r = 1) (panel [p])). y = last (panel [p])"
      using a by simp
  qed
  have c: "CENS r = 0" if "r \<in> set (butlast (panel [p]))" for r
  proof -
    from that have ne: "panel [p] \<noteq> []" by auto
    then have "butlast (panel [p]) @ [last (panel [p])] = panel [p]" by simp
    with d have "distinct (butlast (panel [p]) @ [last (panel [p])])" by simp
    with that have neq: "r \<noteq> last (panel [p])" by auto
    from that have "r \<in> set (panel [p])" by (rule in_set_butlastD)
    with a neq have "CENS r \<noteq> 1" by blast
    moreover from \<open>r \<in> set (panel [p])\<close> have "r \<in> set (expanded [p])"
      using set_panel_subset by blast
    from expanded_row(2) [OF this] have "CENS r = 0 \<or> CENS r = 1"
      by (simp split: if_splits)
    ultimately show ?thesis by simp
  qed
  from a b c show ?thesis
    unfolding Let_def fin by blast
qed

theorem censored_row_is_terminal_witness:
  "unique_id [patient_A, patient_C] patient_C \<and>
   (let fin = rows_of (PatientID patient_C) (panel [patient_A, patient_C])
    in (\<forall>r \<in> set fin. CENS r = 1 \<longrightarrow>
          r = last fin \<and> (\<forall>r' \<in> set fin. month r' \<le> month r)) \<and>
       length (filter (\<lambda>r. CENS r = 1) fin) \<le> 1 \<and>
       (\<forall>r \<in> set (butlast fin). CENS r = 0)) \<and>
   map CENS (rows_of (PatientID patient_C) (panel [patient_A, patient_C])) = [0, 0, 1]"
proof -
  have u: "unique_id [patient_A, patient_C] patient_C"
    by (simp add: unique_id_def patient_A_def patient_C_def)
  have "map CENS (panel [patient_C]) = [0, 0, 1]"
    by code_simp
  then have "map CENS (rows_of (PatientID patient_C) (panel [patient_A, patient_C])) = [0, 0, 1]"
    using u by (simp add: rows_of_panel)
  with u censored_row_is_terminal [OF u] show ?thesis
    by blast
qed

text \<open>Without the key, the identifier of \<open>patient_G\<close> and \<open>patient_J\<close> has two rows with
  \<open>CENS = 1\<close> in the final panel, and the first is followed by four rows with later period
  indices.\<close>

theorem censored_row_shared_identifier_counterexample:
  "map PatientID (panel [patient_G, patient_J]) = [6, 6, 6, 6, 6, 6, 6] \<and>
   map month (panel [patient_G, patient_J]) = [0, 1, 2, 5, 6, 7, 8] \<and>
   map CENS (panel [patient_G, patient_J]) = [0, 0, 1, 0, 0, 0, 1]"
  by code_simp

section \<open>A censoring date on a period boundary\<close>

lemma set_nonneg: "set (nonneg ds) = {d. Some d \<in> set ds \<and> 0 \<le> d}"
  by (induction ds rule: nonneg.induct) auto

lemma series_min_zero:
  assumes "0 \<in> set ds" and "\<forall>d \<in> set ds. 0 \<le> d"
  shows "series_min ds = Some 0"
proof -
  from assms(1) have ne: "ds \<noteq> []" by auto
  have "Min (set ds) = 0"
    using assms by (intro Min_eqI) auto
  with ne show ?thesis by (simp add: series_min_Min)
qed

lemma group_min_zero:
  assumes "x \<in> set df" and "censor x" and "t x = maxvisit x + Timedelta num_days_censor"
  shows "group_min df (PatientID x) = Some 0"
proof -
  let ?g = "filter (\<lambda>r. PatientID r = PatientID x) df"
  have "censor_days x = Some 0"
    using assms(2,3) by (simp add: censor_days_def censor_date_of_def dt_days_def)
  moreover have "x \<in> set ?g"
    using assms(1) by simp
  ultimately have "Some 0 \<in> set (map censor_days ?g)"
    by (metis image_eqI set_map)
  then have "0 \<in> set (nonneg (map censor_days ?g))"
    by (simp add: set_nonneg)
  moreover have "\<forall>d \<in> set (nonneg (map censor_days ?g)). 0 \<le> d"
    by (simp add: set_nonneg)
  ultimately show ?thesis
    unfolding group_min_def by (rule series_min_zero)
qed

text \<open>Once a row of an identifier starts exactly at its censoring date, every row of the
  identifier gets its own censoring date as \<open>censor_t\<close>, whatever else is in the input.\<close>

lemma censor_t_boundary_group:
  assumes r0: "r0 \<in> set (expanded infile)" and c0: "censor r0"
    and t0: "t r0 = maxvisit r0 + Timedelta num_days_censor"
    and r: "r \<in> set (expanded infile)" and same: "PatientID r = PatientID r0"
  shows "censor_t r = (if censor r then Some (maxvisit r + Timedelta num_days_censor) else None)"
proof -
  let ?df = "expand (map derive (drop_duplicates infile))"
  from in_expanded_frame [OF r0] obtain x0 m0 where
    x0: "r0 = annotate_row ?df x0 m0" "x0 \<in> set ?df" by blast
  from in_expanded_frame [OF r] obtain x m where
    x: "r = annotate_row ?df x m" "x \<in> set ?df" by blast
  from x0 c0 t0 have "censor x0" "t x0 = maxvisit x0 + Timedelta num_days_censor"
    by (simp_all add: annotate_row_def)
  with x0(2) have "group_min ?df (PatientID x0) = Some 0"
    by (rule group_min_zero)
  moreover from same x0(1) x(1) have "PatientID x = PatientID x0"
    by simp
  ultimately have "group_min ?df (PatientID x) = Some 0"
    by simp
  with x(1) show ?thesis
    by (simp add: annotate_row_def censor_t_of_def censor_date_of_def Timedelta_def)
qed

lemma censor_row_no_event:
  assumes "r \<in> set (expanded infile)" and "censor r"
  shows "DateOfDeath r = None"
proof -
  from expanded_row(1) [OF assms(1)] obtain p where
    "DateOfDeath r = DateOfDeath p" "censor r = censor_flag p" by blast
  with assms(2) show ?thesis by (simp add: censor_flag_def)
qed

lemma boundary_row_any_cohort:
  assumes r0: "r0 \<in> set (expanded infile)" and c0: "censor r0"
    and t0: "t r0 = maxvisit r0 + Timedelta num_days_censor"
  shows "r0 \<in> set (panel infile)"
    and "censor_date r0 = Some (t r0)" and "censor_t r0 = Some (t r0)"
    and "CENS r0 = 0" and "EVENT r0 = Some 0"
    and "\<forall>r \<in> set (rows_of (PatientID r0) (panel infile)). CENS r = 0"
    and "\<forall>r \<in> set (rows_of (PatientID r0) (expanded infile)).
           censor r \<longrightarrow>
             (r \<in> set (panel infile) \<longleftrightarrow> t r \<le> maxvisit r + Timedelta num_days_censor)"
proof -
  have ct: "censor_t r = (if censor r then Some (maxvisit r + Timedelta num_days_censor) else None)"
    if "r \<in> set (expanded infile)" "PatientID r = PatientID r0" for r
    using censor_t_boundary_group [OF r0 c0 t0 that] .
  from ct [OF r0] c0 t0 show ct0: "censor_t r0 = Some (t r0)" by simp
  with r0 show "r0 \<in> set (panel infile)" by (simp add: in_panel_iff)
  from expanded_row(3) [OF r0] c0 t0 show "censor_date r0 = Some (t r0)" by simp
  from expanded_row(2) [OF r0] t0 show "CENS r0 = 0" by simp
  from expanded_row_EVENT [OF r0] censor_row_no_event [OF r0 c0] t0
  show "EVENT r0 = Some 0" by simp
  show "\<forall>r \<in> set (rows_of (PatientID r0) (panel infile)). CENS r = 0"
  proof
    fix r assume "r \<in> set (rows_of (PatientID r0) (panel infile))"
    then have p: "r \<in> set (panel infile)" and same: "PatientID r = PatientID r0"
      by (simp_all add: rows_of_def)
    from p have e: "r \<in> set (expanded infile)"
      and kept: "case censor_t r of None \<Rightarrow> True | Some c \<Rightarrow> t r \<le> c"
      by (simp_all add: in_panel_iff)
    from kept ct [OF e same] have "censor r \<longrightarrow> t r \<le> maxvisit r + Timedelta num_days_censor"
      by (simp split: if_splits)
    with expanded_row(2) [OF e] show "CENS r = 0" by auto
  qed
  show "\<forall>r \<in> set (rows_of (PatientID r0) (expanded infile)).
      censor r \<longrightarrow>
        (r \<in> set (panel infile) \<longleftrightarrow> t r \<le> maxvisit r + Timedelta num_days_censor)"
  proof (intro ballI impI)
    fix r assume "r \<in> set (rows_of (PatientID r0) (expanded infile))" and c: "censor r"
    then have e: "r \<in> set (expanded infile)" and same: "PatientID r = PatientID r0"
      by (simp_all add: rows_of_def)
    from ct [OF e same] c e
    show "r \<in> set (panel infile) \<longleftrightarrow> t r \<le> maxvisit r + Timedelta num_days_censor"
      by (simp add: in_panel_iff)
  qed
qed

lemma boundary_row_unique_id:
  assumes "unique_id infile p" and "censor_flag p"
    and "\<exists>r \<in> set (rows_of (PatientID p) (expanded infile)). t r = maxvisit p + Timedelta num_days_censor"
  shows "let ex = rows_of (PatientID p) (expanded infile);
             fin = rows_of (PatientID p) (panel infile);
             cd = maxvisit p + Timedelta num_days_censor
         in fin = filter (\<lambda>r. t r \<le> cd) ex \<and> length fin < length ex \<and> fin \<noteq> [] \<and>
            t (last fin) = cd \<and> censor_date (last fin) = Some cd \<and>
            censor_t (last fin) = Some cd \<and>
            CENS (last fin) = 0 \<and> EVENT (last fin) = Some 0 \<and>
            (\<forall>r \<in> set fin. CENS r = 0)"
proof -
  define cd where "cd = maxvisit p + Timedelta num_days_censor"
  have ex: "rows_of (PatientID p) (expanded infile) = expanded [p]"
    and fin: "rows_of (PatientID p) (panel infile) = panel [p]"
    using assms(1) by (simp_all add: rows_of_expanded rows_of_panel)
  from assms(3) obtain r0 where r0: "r0 \<in> set (expanded [p])" and t0: "t r0 = cd"
    unfolding ex cd_def by blast
  then have ne: "expanded [p] \<noteq> []" by auto
  let ?c = "Min {d \<in> t ` set (expanded [p]). cd \<le> d}"
  note s = single_candidate [OF assms(2) ne, folded cd_def]
  from s(3) r0 t0 have "?c \<le> cd" by auto
  with s(2) have c: "?c = cd" by simp
  have ctc: "cd + Timedelta (dt_days (?c - cd)) = cd"
    by (simp add: c dt_days_def Timedelta_def)
  have pf: "panel [p] = filter (\<lambda>r. t r \<le> cd) (expanded [p])"
    using s(5) unfolding ctc .
  have "last (expanded [p]) \<in> set (expanded [p])" using ne by simp
  moreover have "\<not> t (last (expanded [p])) \<le> cd"
    using candidate_end_date [OF assms(2)] last_expanded_single [OF ne] by (simp add: cd_def)
  ultimately have len: "length (panel [p]) < length (expanded [p])"
    unfolding pf by (rule length_filter_less)
  from r0 t0 pf have r0p: "r0 \<in> set (panel [p])" by simp
  then have pne: "panel [p] \<noteq> []" by auto
  have "\<forall>y \<in> set (panel [p]). t y \<le> t r0"
    using pf t0 by simp
  with sorted_t_panel_single r0p have last: "last (panel [p]) = r0"
    by (rule sorted_wrt_less_last)
  have f: "DateOfDeath r = None \<and> censor r \<and> maxvisit r + Timedelta num_days_censor = cd"
    if "r \<in> set (expanded [p])" for r
    using single_fields [OF that] assms(2) by (simp add: censor_flag_def cd_def)
  have cens: "CENS r = 0" if "r \<in> set (panel [p])" for r
  proof -
    from that pf have "r \<in> set (expanded [p])" "t r \<le> cd" by simp_all
    with expanded_row(2) [of r "[p]"] f [of r] show ?thesis by simp
  qed
  have ev: "EVENT r0 = Some 0"
    using expanded_row_EVENT [OF r0] f [OF r0] t0 by simp
  have cdate: "censor_date r0 = Some cd"
    using single_censor_date [OF r0] assms(2) by (simp add: cd_def)
  have ct: "censor_t r0 = Some cd"
    using s(4) r0 unfolding ctc by simp
  from pf len pne last t0 cdate ct cens [OF r0p] ev cens
  show ?thesis
    unfolding Let_def ex fin cd_def [symmetric] by simp
qed

text \<open>
  Claim C10. Whatever else the input holds: when a row of a censoring candidate starts
  exactly at its censoring date (last observation plus grace period), the row is retained
  in the final panel, its \<open>censor_t\<close> is the censoring date, it carries \<open>CENS = 0\<close> and
  \<open>EVENT = 0\<close>, no row with its identifier in the final panel has \<open>CENS = 1\<close>, and the
  candidate rows with that identifier are kept exactly when they start no later than
  their censoring date. If moreover the patient's input row is the only one with its
  identifier, the patient's rows in the final panel are the expanded rows that start no
  later than the censoring date, at least one later row is dropped, and the row starting
  at the censoring date is the patient's last row.
\<close>

theorem censoring_on_period_boundary:
  "(\<forall>r0 \<in> set (expanded infile).
      censor r0 \<and> t r0 = maxvisit r0 + Timedelta num_days_censor \<longrightarrow>
        r0 \<in> set (panel infile) \<and>
        censor_date r0 = Some (t r0) \<and> censor_t r0 = Some (t r0) \<and>
        CENS r0 = 0 \<and> EVENT r0 = Some 0 \<and>
        (\<forall>r \<in> set (rows_of (PatientID r0) (panel infile)). CENS r = 0) \<and>
        (\<forall>r \<in> set (rows_of (PatientID r0) (expanded infile)).
           censor r \<longrightarrow>
             (r \<in> set (panel infile) \<longleftrightarrow> t r \<le> maxvisit r + Timedelta num_days_censor))) \<and>
   (unique_id infile p \<and> censor_flag p \<and>
    (\<exists>r \<in> set (rows_of (PatientID p) (expanded infile)).
       t r = maxvisit p + Timedelta num_days_censor) \<longrightarrow>
      (let ex = rows_of (PatientID p) (expanded infile);
           fin = rows_of (PatientID p) (panel infile);
           cd = maxvisit p + Timedelta num_days_censor
       in fin = filter (\<lambda>r. t r \<le> cd) ex \<and> length fin < length ex \<and> fin \<noteq> [] \<and>
          t (last fin) = cd \<and> censor_date (last fin) = Some cd \<and>
          censor_t (last fin) = Some cd \<and>
          CENS (last fin) = 0 \<and> EVENT (last fin) = Some 0 \<and>
          (\<forall>r \<in> set fin. CENS r = 0)))"
proof -
  have any: "r0 \<in> set (panel infile) \<and>
        censor_date r0 = Some (t r0) \<and> censor_t r0 = Some (t r0) \<and>
        CENS r0 = 0 \<and> EVENT r0 = Some 0 \<and>
        (\<forall>r \<in> set (rows_of (PatientID r0) (panel infile)). CENS r = 0) \<and>
        (\<forall>r \<in> set (rows_of (PatientID r0) (expanded infile)).
           censor r \<longrightarrow>
             (r \<in> set (panel infile) \<longleftrightarrow> t r \<le> maxvisit r + Timedelta num_days_censor))"
    if "r0 \<in> set (expanded infile)" "censor r0"
      "t r0 = maxvisit r0 + Timedelta num_days_censor" for r0
    using boundary_row_any_cohort [OF that] by blast
  have keyed: "let ex = rows_of (PatientID p) (expanded infile);
           fin = rows_of (PatientID p) (panel infile);
           cd = maxvisit p + Timedelta num_days_censor
       in fin = filter (\<lambda>r. t r \<le> cd) ex \<and> length fin < length ex \<and> fin \<noteq> [] \<and>
          t (last fin) = cd \<and> censor_date (last fin) = Some cd \<and>
          censor_t (last fin) = Some cd \<and>
          CENS (last fin) = 0 \<and> EVENT (last fin) = Some 0 \<and>
          (\<forall>r \<in> set fin. CENS r = 0)"
    if "unique_id infile p" "censor_flag p"
      "\<exists>r \<in> set (rows_of (PatientID p) (expanded infile)).
         t r = maxvisit p + Timedelta num_days_censor"
    using boundary_row_unique_id [OF that] .
  from any keyed show ?thesis
    by blast
qed

theorem censoring_on_period_boundary_witness:
  "expanded [patient_G, patient_H] ! 6 \<in> set (expanded [patient_G, patient_H]) \<and>
   censor (expanded [patient_G, patient_H] ! 6) \<and>
   t (expanded [patient_G, patient_H] ! 6) =
     maxvisit (expanded [patient_G, patient_H] ! 6) + Timedelta num_days_censor \<and>
   expanded [patient_G, patient_H] ! 6 \<in> set (panel [patient_G, patient_H]) \<and>
   censor_t (expanded [patient_G, patient_H] ! 6) =
     Some (t (expanded [patient_G, patient_H] ! 6)) \<and>
   CENS (expanded [patient_G, patient_H] ! 6) = 0 \<and>
   EVENT (expanded [patient_G, patient_H] ! 6) = Some 0 \<and>
   unique_id [patient_A, patient_D] patient_D \<and> censor_flag patient_D \<and>
   (\<exists>r \<in> set (rows_of (PatientID patient_D) (expanded [patient_A, patient_D])).
      t r = maxvisit patient_D + Timedelta num_days_censor) \<and>
   (let ex = rows_of (PatientID patient_D) (expanded [patient_A, patient_D]);
        fin = rows_of (PatientID patient_D) (panel [patient_A, patient_D]);
        cd = maxvisit patient_D + Timedelta num_days_censor
    in fin = filter (\<lambda>r. t r \<le> cd) ex \<and> length fin < length ex \<and> fin \<noteq> [] \<and>
       t (last fin) = cd \<and> censor_date (last fin) = Some cd \<and>
       censor_t (last fin) = Some cd \<and>
       CENS (last fin) = 0 \<and> EVENT (last fin) = Some 0 \<and>
       (\<forall>r \<in> set fin. CENS r = 0))"
proof -
  have "length (expanded [patient_G, patient_H]) = 10"
    by code_simp
  then have m: "expanded [patient_G, patient_H] ! 6 \<in> set (expanded [patient_G, patient_H])"
    by simp
  have h: "censor (expanded [patient_G, patient_H] ! 6)"
    "t (expanded [patient_G, patient_H] ! 6) =
       maxvisit (expanded [patient_G, patient_H] ! 6) + Timedelta num_days_censor"
    by code_simp+
  have u: "unique_id [patient_A, patient_D] patient_D"
    by (simp add: unique_id_def patient_A_def patient_D_def)
  have c: "censor_flag patient_D"
    by code_simp
  have "map t (expanded [patient_D]) ! 1 = maxvisit patient_D + Timedelta num_days_censor"
    and "1 < length (expanded [patient_D])"
    by code_simp+
  then have "expanded [patient_D] ! 1 \<in> set (expanded [patient_D])"
    and "t (expanded [patient_D] ! 1) = maxvisit patient_D + Timedelta num_days_censor"
    by simp_all
  then have b: "\<exists>r \<in> set (rows_of (PatientID patient_D) (expanded [patient_A, patient_D])).
      t r = maxvisit patient_D + Timedelta num_days_censor"
    using u by (auto simp: rows_of_expanded)
  from censoring_on_period_boundary [of "[patient_G, patient_H]" patient_D] m h
  have first: "expanded [patient_G, patient_H] ! 6 \<in> set (panel [patient_G, patient_H])"
    "censor_t (expanded [patient_G, patient_H] ! 6) =
       Some (t (expanded [patient_G, patient_H] ! 6))"
    "CENS (expanded [patient_G, patient_H] ! 6) = 0"
    "EVENT (expanded [patient_G, patient_H] ! 6) = Some 0"
    by blast+
  from censoring_on_period_boundary [of "[patient_A, patient_D]" patient_D] u c b
  have second: "let ex = rows_of (PatientID patient_D) (expanded [patient_A, patient_D]);
        fin = rows_of (PatientID patient_D) (panel [patient_A, patient_D]);
        cd = maxvisit patient_D + Timedelta num_days_censor
    in fin = filter (\<lambda>r. t r \<le> cd) ex \<and> length fin < length ex \<and> fin \<noteq> [] \<and>
       t (last fin) = cd \<and> censor_date (last fin) = Some cd \<and>
       censor_t (last fin) = Some cd \<and>
       CENS (last fin) = 0 \<and> EVENT (last fin) = Some 0 \<and>
       (\<forall>r \<in> set fin. CENS r = 0)"
    by blast
  from m h first u c b second show ?thesis
    by (intro conjI)
qed

end
